theory Spec2Isabelle
  imports Complex_Main
begin

section \<open>Data model of \<^verbatim>\<open>dolfin/fem/Assembler.cpp\<close>\<close>

text \<open>
  The assembler orchestrates collaborators that live outside the file: the mesh, the
  dof maps, the generated cell integral, the PETSc matrix and vector, and the Dirichlet
  conditions. Each collaborator is a record whose fields are what the assembler reads
  from it. Scalars are \<^verbatim>\<open>double\<close> in the source and \<^typ>\<open>real\<close> here: rounding is
  not modelled. Shared pointers that the source dereferences under an \<^verbatim>\<open>assert\<close>
  (\<^verbatim>\<open>a.mesh()\<close>, \<^verbatim>\<open>bcs[i]\<close>, \<^verbatim>\<open>bcs[i]->function_space()\<close>) are always present in
  the model; the entries of the table of bilinear forms are optional, as the matrix
  path tests them.
\<close>

text \<open>\<^verbatim>\<open>DirichletBC::Map\<close>: global dof index to prescribed value, unique keys.\<close>

type_synonym bc_map = "nat \<rightharpoonup> real"

text \<open>The entries of a global sparse matrix and of a global vector.\<close>

type_synonym mat_vals = "nat \<Rightarrow> nat \<Rightarrow> real"
type_synonym vec_vals = "nat \<Rightarrow> real"

text \<open>
  \<^verbatim>\<open>FunctionSpace\<close>: \<open>space_id\<close> is the identity of the object (the source compares
  \<^verbatim>\<open>spaces[0] == spaces[1]\<close> as pointers), \<open>cell_dofs\<close> is
  \<^verbatim>\<open>dofmap()->cell_dofs(cell.index())\<close>, and \<open>contains_space V (space_id W)\<close> is
  \<^verbatim>\<open>V.contains(W)\<close>.
\<close>

record function_space =
  space_id :: nat
  cell_dofs :: "nat \<Rightarrow> nat list"
  contains_space :: "nat \<Rightarrow> bool"

text \<open>
  \<^verbatim>\<open>Mesh\<close>: the indices of the cells that \<^verbatim>\<open>MeshRange<Cell>(mesh)\<close> visits, in
  order, and \<^verbatim>\<open>MPI::size(mesh.mpi_comm())\<close>.
\<close>

record mesh =
  mesh_cells :: "nat list"
  mpi_size :: nat

text \<open>
  \<^verbatim>\<open>DirichletBC\<close>. The two methods that change a boundary map are code outside the
  file and are taken as they come: \<open>get_boundary_values\<close> is the local resolution,
  \<open>gather\<close> is what the collective exchange returns on this rank.
\<close>

record dirichlet_bc =
  bc_function_space :: function_space
  bc_method :: string
  get_boundary_values :: "bc_map \<Rightarrow> bc_map"
  gather :: "bc_map \<Rightarrow> bc_map"

text \<open>
  \<^verbatim>\<open>Form\<close>: its mesh, \<^verbatim>\<open>a.function_space(i)\<close>, and the numbers that the cell
  integral's \<^verbatim>\<open>tabulate_tensor\<close> writes for a cell, in the order it writes them into
  the buffer it is handed (row-major for a bilinear form).
\<close>

record form =
  form_mesh :: mesh
  function_space :: "nat \<Rightarrow> function_space"
  tabulate_tensor :: "nat \<Rightarrow> real list"

text \<open>
  \<^verbatim>\<open>fem::Assembler\<close>: the members \<^verbatim>\<open>_a\<close>, \<^verbatim>\<open>_l\<close> and \<^verbatim>\<open>_bcs\<close>. The constructor
  stores them and checks nothing (its rank check is commented out).
\<close>

record assembler =
  forms_a :: "form option list list"
  forms_l :: "form list"
  bcs :: "dirichlet_bc list"

text \<open>
  A \<^verbatim>\<open>PETScMatrix\<close> over a plain \<^verbatim>\<open>Mat\<close> is either empty (\<^verbatim>\<open>A.empty()\<close>) or holds
  values; over a \<^verbatim>\<open>MATNEST\<close> it holds the row count, the column count and the
  row-major array of sub-matrix handles given to \<^verbatim>\<open>MatNestSetSubMats\<close>, a null handle
  being \<open>None\<close>.
\<close>

datatype sparse_matrix = Uninitialised | Entries mat_vals

datatype petsc_matrix = Plain sparse_matrix | MatNest nat nat "sparse_matrix option list"

datatype petsc_vector = EmptyVector | VecEntries vec_vals

text \<open>\<^verbatim>\<open>A.empty()\<close>.\<close>

fun empty_matrix :: "petsc_matrix \<Rightarrow> bool" where
  "empty_matrix (Plain Uninitialised) = True"
| "empty_matrix (Plain (Entries v)) = False"
| "empty_matrix (MatNest nr nc mats) = False"

text \<open>
  The local dense matrix \<^verbatim>\<open>Ae\<close> (an \<^verbatim>\<open>Eigen::Matrix\<close>): its shape and the accessor
  \<^verbatim>\<open>Ae(i, j)\<close>.
\<close>

record eigen_matrix =
  nrows :: nat
  ncols :: nat
  coeff :: "nat \<Rightarrow> nat \<Rightarrow> real"

text \<open>
  Failures. \<open>NotImplemented\<close> is the \<^verbatim>\<open>std::runtime_error\<close> of line 99. \<open>OutOfRange\<close>
  and \<open>NullPointer\<close> stand for the undefined behaviour of indexing a \<^verbatim>\<open>std::vector\<close>
  beyond its size and of dereferencing a null \<^verbatim>\<open>shared_ptr\<close> or \<^verbatim>\<open>Mat\<close>.
\<close>

datatype error = NotImplemented | OutOfRange | NullPointer

text \<open>
  The log of calls into the collaborators, in program order. A call is logged by the
  routine that makes it: \<open>AssembleMatrix\<close> is \<^verbatim>\<open>assemble(PETScMatrix&)\<close>,
  \<open>AssembleForm i j\<close> is the call \<^verbatim>\<open>assemble(mat, *_a[i][j], _bcs)\<close>,
  \<open>AssembleLinear\<close> is \<^verbatim>\<open>assemble(b, *_l[0])\<close>, \<open>ApplyBC i j\<close> is
  \<^verbatim>\<open>apply_bc(b, *_a[i][j], _bcs)\<close> and \<open>SetBC\<close> is \<^verbatim>\<open>set_bc(b, *_l[0], _bcs)\<close>.
\<close>

datatype call =
    GetBoundaryValues nat nat
  | Gather nat nat
  | TabulateTensor nat
  | Init
  | InitSubMat nat nat
  | NestSetSubMats nat nat
  | AddLocal nat
  | Apply
  | ZeroLocal
  | SetLocal

datatype routine =
    AssembleMatrix
  | AssembleForm nat nat
  | AssembleLinear
  | ApplyBC nat nat
  | SetBC

type_synonym event = "routine \<times> call"

section \<open>Collaborator operations\<close>

text \<open>
  Modelled from the spec: \<^verbatim>\<open>fem::init\<close> is not in the file. Spec 4.1: an
  uninitialised matrix is allocated as a plain sparse matrix sized by the dof maps; a
  freshly allocated matrix or vector holds zeros. Sizes and sparsity patterns are not
  modelled.
\<close>

definition init_matrix :: "form \<Rightarrow> mat_vals" where
  "init_matrix a = (\<lambda>r c. 0)"

definition init_vector :: "form \<Rightarrow> vec_vals" where
  "init_vector L = (\<lambda>r. 0)"

text \<open>
  Modelled from the spec: \<^verbatim>\<open>PETScMatrix::add_local\<close> is not in the file. Spec glossary,
  scatter-add: the local dense block (row-major, \<open>m\<close> rows and \<open>n\<close> columns) is
  accumulated into the global entries at \<open>(rows[i], cols[j])\<close>, summed with what is
  there.
\<close>

definition add_entry :: "nat \<Rightarrow> nat \<Rightarrow> real \<Rightarrow> mat_vals \<Rightarrow> mat_vals" where
  "add_entry r c x A = A(r := (A r)(c := A r c + x))"

definition mat_add_local :: "eigen_matrix \<Rightarrow> nat list \<Rightarrow> nat list \<Rightarrow> mat_vals \<Rightarrow> mat_vals" where
  "mat_add_local Ae rows cols A =
     fold (\<lambda>i. fold (\<lambda>j. add_entry (rows ! i) (cols ! j) (coeff Ae i j)) [0..<length cols])
       [0..<length rows] A"

text \<open>
  Modelled from the spec: \<^verbatim>\<open>PETScMatrix::zero_local\<close> is not in the file. Spec 4.2: the
  given value is written onto the diagonal for every listed row. The rows are the keys
  of a boundary map (lines 286--288), whose iteration order is unspecified and does not
  matter; they are passed as the test whether an index is listed.
\<close>

definition zero_local :: "(nat \<Rightarrow> bool) \<Rightarrow> real \<Rightarrow> mat_vals \<Rightarrow> mat_vals" where
  "zero_local listed d A = (\<lambda>r c. if listed r \<and> c = r then d else A r c)"

text \<open>
  Modelled from the spec: \<^verbatim>\<open>PETScVector::add_local\<close> and \<^verbatim>\<open>PETScVector::set_local\<close>
  are not in the file. Spec 4.3 and 4.5: the first sums local contributions into the
  listed entries, the second overwrites the listed entries.
\<close>

definition vec_add_local :: "real list \<Rightarrow> nat list \<Rightarrow> vec_vals \<Rightarrow> vec_vals" where
  "vec_add_local be rows b =
     fold (\<lambda>i v. v(rows ! i := v (rows ! i) + be ! i)) [0..<length rows] b"

definition vec_set_local :: "bc_map \<Rightarrow> vec_vals \<Rightarrow> vec_vals" where
  "vec_set_local bv b = (\<lambda>r. case bv r of Some x \<Rightarrow> x | None \<Rightarrow> b r)"

text \<open>
  \<^verbatim>\<open>Ae.resize(m, n); Ae.setZero(); tabulate_tensor(Ae.data(), ...)\<close>: the integral
  writes its numbers from the start of the zeroed row-major buffer, so \<^verbatim>\<open>Ae(i, j)\<close>
  reads position \<open>i * n + j\<close>, and a position the integral did not write reads zero.
\<close>

definition tabulate_matrix :: "form \<Rightarrow> nat \<Rightarrow> nat \<Rightarrow> nat \<Rightarrow> eigen_matrix" where
  "tabulate_matrix a c m n =
     \<lparr>nrows = m, ncols = n,
      coeff = (\<lambda>i j. if i * n + j < length (tabulate_tensor a c)
                       then tabulate_tensor a c ! (i * n + j) else 0)\<rparr>"

text \<open>\<^verbatim>\<open>be.resize(n); be.setZero(); tabulate_tensor(be.data(), ...)\<close>.\<close>

definition tabulate_vector :: "form \<Rightarrow> nat \<Rightarrow> nat \<Rightarrow> real list" where
  "tabulate_vector L c n =
     map (\<lambda>i. if i < length (tabulate_tensor L c) then tabulate_tensor L c ! i else 0) [0..<n]"

section \<open>Resolving the boundary maps\<close>

text \<open>
  The body that the three resolution loops share word for word (lines 205--212,
  394--399 and 532--537): if the space contains the condition's space, resolve locally,
  and gather when there is more than one rank and the method is not pointwise. The
  result is the new map and the calls made, tagged with the index of the condition and
  the axis of the map.
\<close>

definition resolve_bc ::
  "nat \<Rightarrow> function_space \<Rightarrow> nat \<Rightarrow> nat \<Rightarrow> dirichlet_bc \<Rightarrow> bc_map \<Rightarrow> bc_map \<times> call list" where
  "resolve_bc nproc V axis i bc m =
     (if contains_space V (space_id (bc_function_space bc)) then
        (if nproc > 1 \<and> bc_method bc \<noteq> ''pointwise''
         then (gather bc (get_boundary_values bc m), [GetBoundaryValues i axis, Gather i axis])
         else (get_boundary_values bc m, [GetBoundaryValues i axis]))
      else (m, []))"

text \<open>Lines 198--214: the loop over the conditions, both axes inside it.\<close>

fun collect_bcs_matrix ::
  "form \<Rightarrow> nat \<Rightarrow> dirichlet_bc list \<Rightarrow> bc_map \<times> bc_map \<Rightarrow> (bc_map \<times> bc_map) \<times> call list" where
  "collect_bcs_matrix a i [] (m0, m1) = ((m0, m1), [])"
| "collect_bcs_matrix a i (bc # rest) (m0, m1) =
     (let nproc = mpi_size (form_mesh a);
          (m0', calls0) = resolve_bc nproc (function_space a 0) 0 i bc m0;
          (m1', calls1) = resolve_bc nproc (function_space a 1) 1 i bc m1;
          (ms, calls) = collect_bcs_matrix a (Suc i) rest (m0', m1')
      in (ms, calls0 @ calls1 @ calls))"

text \<open>Lines 389--400 and 527--538: the loop over the conditions for one space.\<close>

fun collect_bcs ::
  "nat \<Rightarrow> function_space \<Rightarrow> nat \<Rightarrow> nat \<Rightarrow> dirichlet_bc list \<Rightarrow> bc_map \<Rightarrow> bc_map \<times> call list" where
  "collect_bcs nproc V axis i [] m = (m, [])"
| "collect_bcs nproc V axis i (bc # rest) m =
     (let (m', calls0) = resolve_bc nproc V axis i bc m;
          (m'', calls) = collect_bcs nproc V axis (Suc i) rest m'
      in (m'', calls0 @ calls))"

section \<open>Matrix assembly of one form (lines 166--291)\<close>

text \<open>Lines 257--263: zero the rows whose global index has a boundary value.\<close>

definition set_row_zero :: "nat \<Rightarrow> eigen_matrix \<Rightarrow> eigen_matrix" where
  "set_row_zero i Ae = Ae\<lparr>coeff := (\<lambda>r c. if r = i then 0 else coeff Ae r c)\<rparr>"

definition set_col_zero :: "nat \<Rightarrow> eigen_matrix \<Rightarrow> eigen_matrix" where
  "set_col_zero j Ae = Ae\<lparr>coeff := (\<lambda>r c. if c = j then 0 else coeff Ae r c)\<rparr>"

definition zero_bc_rows :: "bc_map \<Rightarrow> nat list \<Rightarrow> eigen_matrix \<Rightarrow> eigen_matrix" where
  "zero_bc_rows bv dmap0 Ae =
     fold (\<lambda>i M. if bv (dmap0 ! i) \<noteq> None then set_row_zero i M else M) [0..<nrows Ae] Ae"

text \<open>Lines 265--271: zero the columns whose global index has a boundary value.\<close>

definition zero_bc_cols :: "bc_map \<Rightarrow> nat list \<Rightarrow> eigen_matrix \<Rightarrow> eigen_matrix" where
  "zero_bc_cols bv dmap1 Ae =
     fold (\<lambda>j M. if bv (dmap1 ! j) \<noteq> None then set_col_zero j M else M) [0..<ncols Ae] Ae"

text \<open>Lines 242--275: the body of the cell loop, on the values of the matrix.\<close>

definition assemble_cell :: "form \<Rightarrow> bc_map \<Rightarrow> bc_map \<Rightarrow> nat \<Rightarrow> mat_vals \<Rightarrow> mat_vals" where
  "assemble_cell a bv0 bv1 c A =
     (let dmap0 = cell_dofs (function_space a 0) c;
          dmap1 = cell_dofs (function_space a 1) c;
          Ae = tabulate_matrix a c (length dmap0) (length dmap1);
          Ae0 = zero_bc_rows bv0 dmap0 Ae;
          Ae1 = zero_bc_cols bv1 dmap1 Ae0
      in mat_add_local Ae1 dmap0 dmap1 A)"

fun assemble_cells ::
  "form \<Rightarrow> bc_map \<Rightarrow> bc_map \<Rightarrow> nat list \<Rightarrow> mat_vals \<Rightarrow> mat_vals \<times> call list" where
  "assemble_cells a bv0 bv1 [] A = (A, [])"
| "assemble_cells a bv0 bv1 (c # cs) A =
     (let (A', calls) = assemble_cells a bv0 bv1 cs (assemble_cell a bv0 bv1 c A)
      in (A', TabulateTensor c # AddLocal c # calls))"

text \<open>
  \<^verbatim>\<open>assemble(PETScMatrix& A, const Form& a, bcs)\<close>. \<^verbatim>\<open>A.apply(FINAL)\<close> changes no
  value on one rank and is logged. The diagonal is written only when the two spaces
  are the same object.
\<close>

definition assemble_form ::
  "form \<Rightarrow> dirichlet_bc list \<Rightarrow> sparse_matrix \<Rightarrow> mat_vals \<times> call list" where
  "assemble_form a bs A =
     (let (A0, calls0) = (case A of Uninitialised \<Rightarrow> (init_matrix a, [Init])
                                  | Entries v \<Rightarrow> (v, []));
          ((bv0, bv1), calls1) = collect_bcs_matrix a 0 bs (Map.empty, Map.empty);
          (A1, calls2) = assemble_cells a bv0 bv1 (mesh_cells (form_mesh a)) A0
      in if space_id (function_space a 0) = space_id (function_space a 1)
         then (zero_local (\<lambda>r. bv0 r \<noteq> None) 1 A1, calls0 @ calls1 @ calls2 @ [Apply, ZeroLocal])
         else (A1, calls0 @ calls1 @ calls2 @ [Apply]))"

section \<open>Vector assembly of one form (lines 293--357)\<close>

text \<open>Lines 339--351: the body of the cell loop, on the values of the vector.\<close>

definition assemble_cell_vector :: "form \<Rightarrow> nat \<Rightarrow> vec_vals \<Rightarrow> vec_vals" where
  "assemble_cell_vector L c b =
     (let dmap = cell_dofs (function_space L 0) c;
          be = tabulate_vector L c (length dmap)
      in vec_add_local be dmap b)"

fun assemble_cells_vector :: "form \<Rightarrow> nat list \<Rightarrow> vec_vals \<Rightarrow> vec_vals \<times> call list" where
  "assemble_cells_vector L [] b = (b, [])"
| "assemble_cells_vector L (c # cs) b =
     (let (b', calls) = assemble_cells_vector L cs (assemble_cell_vector L c b)
      in (b', TabulateTensor c # AddLocal c # calls))"

text \<open>\<^verbatim>\<open>assemble(PETScVector& b, const Form& L)\<close>.\<close>

definition assemble_linear :: "form \<Rightarrow> petsc_vector \<Rightarrow> vec_vals \<times> call list" where
  "assemble_linear L b =
     (let (b0, calls0) = (case b of EmptyVector \<Rightarrow> (init_vector L, [Init])
                                  | VecEntries v \<Rightarrow> (v, []));
          (b1, calls1) = assemble_cells_vector L (mesh_cells (form_mesh L)) b0
      in (b1, calls0 @ calls1 @ [Apply]))"

section \<open>Lifting correction (lines 359--514)\<close>

text \<open>Lines 441--450: is any axis-1 dof of the cell in the boundary map?\<close>

fun has_bc :: "bc_map \<Rightarrow> nat list \<Rightarrow> bool" where
  "has_bc bv [] = False"
| "has_bc bv (ii # rest) = (if bv ii \<noteq> None then True else has_bc bv rest)"

text \<open>
  Lines 492--500: for every column with a boundary value, \<^verbatim>\<open>be -= Ae.col(j) * value\<close>.
\<close>

definition lift_columns :: "bc_map \<Rightarrow> nat list \<Rightarrow> eigen_matrix \<Rightarrow> real list \<Rightarrow> real list" where
  "lift_columns bv dmap1 Ae be =
     fold (\<lambda>j v. case bv (dmap1 ! j) of
                    None \<Rightarrow> v
                  | Some x \<Rightarrow> map (\<lambda>i. v ! i - coeff Ae i j * x) [0..<length v])
       [0..<length dmap1] be"

text \<open>
  Lines 438--508: the body of the cell loop. Line 469 reads
  \<^verbatim>\<open>auto dmap0 = dofmap1->cell_dofs(cell.index());\<close> and the model follows it: the
  rows of the local matrix and the scatter indices come from the axis-1 dof map.
\<close>

definition apply_bc_cell :: "form \<Rightarrow> bc_map \<Rightarrow> nat \<Rightarrow> vec_vals \<Rightarrow> vec_vals \<times> call list" where
  "apply_bc_cell a bv c b =
     (let dmap1 = cell_dofs (function_space a 1) c in
      if \<not> has_bc bv dmap1 then (b, [])
      else
        (let dmap0 = cell_dofs (function_space a 1) c;
             Ae = tabulate_matrix a c (length dmap0) (length dmap1);
             Ae0 = (if space_id (function_space a 0) = space_id (function_space a 1)
                    then zero_bc_rows bv dmap0 Ae else Ae);
             be = lift_columns bv dmap1 Ae0 (replicate (length dmap0) 0)
         in (vec_add_local be dmap0 b, [TabulateTensor c, AddLocal c])))"

fun apply_bc_cells :: "form \<Rightarrow> bc_map \<Rightarrow> nat list \<Rightarrow> vec_vals \<Rightarrow> vec_vals \<times> call list" where
  "apply_bc_cells a bv [] b = (b, [])"
| "apply_bc_cells a bv (c # cs) b =
     (let (b1, calls1) = apply_bc_cell a bv c b;
          (b2, calls2) = apply_bc_cells a bv cs b1
      in (b2, calls1 @ calls2))"

text \<open>\<^verbatim>\<open>apply_bc(PETScVector& b, const Form& a, bcs)\<close>.\<close>

definition apply_bc :: "form \<Rightarrow> dirichlet_bc list \<Rightarrow> vec_vals \<Rightarrow> vec_vals \<times> call list" where
  "apply_bc a bs b =
     (let (bv, calls0) =
            collect_bcs (mpi_size (form_mesh a)) (function_space a 1) 1 0 bs Map.empty;
          (b1, calls1) = apply_bc_cells a bv (mesh_cells (form_mesh a)) b
      in (b1, calls0 @ calls1 @ [Apply]))"

section \<open>Boundary value overwrite (lines 516--552)\<close>

text \<open>\<^verbatim>\<open>set_bc(PETScVector& b, const Form& L, bcs)\<close>.\<close>

definition set_bc :: "form \<Rightarrow> dirichlet_bc list \<Rightarrow> vec_vals \<Rightarrow> vec_vals \<times> call list" where
  "set_bc L bs b =
     (let (bv, calls0) =
            collect_bcs (mpi_size (form_mesh L)) (function_space L 0) 0 0 bs Map.empty
      in (vec_set_local bv b, calls0 @ [SetLocal, Apply]))"

section \<open>The public entry points\<close>

text \<open>
  Lines 62--75: one new matrix per present form, a null handle per absent one, pushed
  row by row onto one flat array.
\<close>

fun init_sub_row ::
  "nat \<Rightarrow> nat \<Rightarrow> form option list \<Rightarrow> sparse_matrix option list \<times> event list" where
  "init_sub_row i j [] = ([], [])"
| "init_sub_row i j (None # rest) =
     (let (ms, evs) = init_sub_row i (Suc j) rest in (None # ms, evs))"
| "init_sub_row i j (Some a # rest) =
     (let (ms, evs) = init_sub_row i (Suc j) rest
      in (Some (Entries (init_matrix a)) # ms, (AssembleMatrix, InitSubMat i j) # evs))"

fun init_sub_mats ::
  "nat \<Rightarrow> form option list list \<Rightarrow> sparse_matrix option list \<times> event list" where
  "init_sub_mats i [] = ([], [])"
| "init_sub_mats i (a_row # rest) =
     (let (ms0, evs0) = init_sub_row i 0 a_row;
          (ms1, evs1) = init_sub_mats (Suc i) rest
      in (ms0 @ ms1, evs0 @ evs1))"

text \<open>
  \<^verbatim>\<open>MatNestGetSubMat(A.mat(), i, j, &subA)\<close> on a nest of \<open>nr\<close> by \<open>nc\<close> handles:
  PETSc rejects an index outside the nest, the handle is the one at row-major position
  \<open>i * nc + j\<close>, and a null handle cannot be assembled into.
\<close>

definition get_sub_mat ::
  "nat \<Rightarrow> nat \<Rightarrow> sparse_matrix option list \<Rightarrow> nat \<Rightarrow> nat \<Rightarrow> error + sparse_matrix" where
  "get_sub_mat nr nc mats i j =
     (if i < nr \<and> j < nc \<and> i * nc + j < length mats then
        (case mats ! (i * nc + j) of None \<Rightarrow> Inl NullPointer | Some s \<Rightarrow> Inr s)
      else Inl OutOfRange)"

text \<open>Lines 110--122: the inner loop over the entries of row \<open>i\<close>.\<close>

fun assemble_block_row ::
  "dirichlet_bc list \<Rightarrow> nat \<Rightarrow> nat \<Rightarrow> nat \<Rightarrow> nat \<Rightarrow> form option list \<Rightarrow>
   sparse_matrix option list \<Rightarrow> sparse_matrix option list \<times> event list \<times> error option" where
  "assemble_block_row bs nr nc i j [] mats = (mats, [], None)"
| "assemble_block_row bs nr nc i j (None # rest) mats =
     assemble_block_row bs nr nc i (Suc j) rest mats"
| "assemble_block_row bs nr nc i j (Some a # rest) mats =
     (case get_sub_mat nr nc mats i j of
        Inl e \<Rightarrow> (mats, [], Some e)
      | Inr sub \<Rightarrow>
          (let (v, calls) = assemble_form a bs sub;
               (mats', evs, err) =
                  assemble_block_row bs nr nc i (Suc j) rest (mats[i * nc + j := Some (Entries v)])
           in (mats', map (Pair (AssembleForm i j)) calls @ evs, err)))"

text \<open>Lines 107--123: the outer loop over the rows of the table.\<close>

fun assemble_blocks ::
  "dirichlet_bc list \<Rightarrow> nat \<Rightarrow> nat \<Rightarrow> nat \<Rightarrow> form option list list \<Rightarrow>
   sparse_matrix option list \<Rightarrow> sparse_matrix option list \<times> event list \<times> error option" where
  "assemble_blocks bs nr nc i [] mats = (mats, [], None)"
| "assemble_blocks bs nr nc i (a_row # rest) mats =
     (let (mats1, evs1, err1) = assemble_block_row bs nr nc i 0 a_row mats
      in case err1 of
           Some e \<Rightarrow> (mats1, evs1, Some e)
         | None \<Rightarrow>
             (let (mats2, evs2, err2) = assemble_blocks bs nr nc (Suc i) rest mats1
              in (mats2, evs1 @ evs2, err2)))"

text \<open>
  \<^verbatim>\<open>assemble(PETScMatrix& A)\<close>, lines 51--132. The result is the matrix as the call
  leaves it, the log, and the failure if the call does not return. Line 54 reads
  \<^verbatim>\<open>_a[0]\<close> when \<^verbatim>\<open>_a.size() > 1\<close> is false, so an empty table is out of range.
  \<^verbatim>\<open>MatNestSetSubMats\<close> reads \<open>nr * nc\<close> handles from the flat array.
\<close>

definition assemble_matrix ::
  "assembler \<Rightarrow> petsc_matrix \<Rightarrow> petsc_matrix \<times> event list \<times> error option" where
  "assemble_matrix asm A =
     (case forms_a asm of
        [] \<Rightarrow> (A, [], Some OutOfRange)
      | row0 # _ \<Rightarrow>
          (let block_matrix = (length (forms_a asm) > 1 \<or> length row0 > 1) in
           if \<not> empty_matrix A then (A, [], Some NotImplemented)
           else if block_matrix then
             (let (mats, evs0) = init_sub_mats 0 (forms_a asm);
                  nr = length (forms_a asm);
                  nc = length row0
              in if length mats < nr * nc then (A, evs0, Some OutOfRange)
                 else
                   (let (mats', evs1, err) =
                          assemble_blocks (bcs asm) nr nc 0 (forms_a asm) (take (nr * nc) mats);
                        evs = evs0 @ (AssembleMatrix, NestSetSubMats nr nc) # evs1
                    in case err of
                         Some e \<Rightarrow> (MatNest nr nc mats', evs, Some e)
                       | None \<Rightarrow> (MatNest nr nc mats', evs @ [(AssembleMatrix, Apply)], None)))
           else
             (case row0 of
                [] \<Rightarrow> (A, [], Some OutOfRange)
              | None # _ \<Rightarrow> (A, [], Some NullPointer)
              | Some a # _ \<Rightarrow>
                  (let (A1, calls) = assemble_form a (bcs asm) (Entries (init_matrix a))
                   in (Plain (Entries A1),
                       (AssembleMatrix, Init) # map (Pair (AssembleForm 0 0)) calls
                         @ [(AssembleMatrix, Apply)],
                       None)))))"

text \<open>Lines 141--143: the lifting corrections of row \<open>i\<close> of the table.\<close>

fun lift_row ::
  "dirichlet_bc list \<Rightarrow> nat \<Rightarrow> nat \<Rightarrow> form option list \<Rightarrow> vec_vals \<Rightarrow>
   vec_vals \<times> event list \<times> error option" where
  "lift_row bs i j [] b = (b, [], None)"
| "lift_row bs i j (None # rest) b = (b, [], Some NullPointer)"
| "lift_row bs i j (Some a # rest) b =
     (let (b1, calls) = apply_bc a bs b;
          (b2, evs, err) = lift_row bs i (Suc j) rest b1
      in (b2, map (Pair (ApplyBC i j)) calls @ evs, err))"

text \<open>
  The loop over \<open>i\<close>, which runs over the indices of \<^verbatim>\<open>_l\<close> and reads \<^verbatim>\<open>_a[i]\<close>.
\<close>

fun lift_rows ::
  "form option list list \<Rightarrow> dirichlet_bc list \<Rightarrow> nat list \<Rightarrow> vec_vals \<Rightarrow>
   vec_vals \<times> event list \<times> error option" where
  "lift_rows tab bs [] b = (b, [], None)"
| "lift_rows tab bs (i # rest) b =
     (if i < length tab then
        (let (b1, evs1, err1) = lift_row bs i 0 (tab ! i) b
         in case err1 of
              Some e \<Rightarrow> (b1, evs1, Some e)
            | None \<Rightarrow>
                (let (b2, evs2, err2) = lift_rows tab bs rest b1
                 in (b2, evs1 @ evs2, err2)))
      else (b, [], Some OutOfRange))"

text \<open>\<^verbatim>\<open>assemble(PETScVector& b)\<close>, lines 135--153.\<close>

definition assemble_vector ::
  "assembler \<Rightarrow> petsc_vector \<Rightarrow> petsc_vector \<times> event list \<times> error option" where
  "assemble_vector asm b =
     (case forms_l asm of
        [] \<Rightarrow> (b, [], Some OutOfRange)
      | L0 # _ \<Rightarrow>
          (let (b1, calls1) = assemble_linear L0 b;
               (b2, evs2, err) =
                  lift_rows (forms_a asm) (bcs asm) [0..<length (forms_l asm)] b1;
               evs = map (Pair AssembleLinear) calls1 @ evs2
           in case err of
                Some e \<Rightarrow> (VecEntries b2, evs, Some e)
              | None \<Rightarrow>
                  (let (b3, calls3) = set_bc L0 (bcs asm) b2
                   in (VecEntries b3, evs @ map (Pair SetBC) calls3, None))))"

text \<open>\<^verbatim>\<open>assemble(PETScMatrix& A, PETScVector& b)\<close>, lines 155--164.\<close>

definition assemble_system ::
  "assembler \<Rightarrow> petsc_matrix \<Rightarrow> petsc_vector \<Rightarrow>
   (petsc_matrix \<times> petsc_vector) \<times> event list \<times> error option" where
  "assemble_system asm A b =
     (let (A', evsA, errA) = assemble_matrix asm A
      in case errA of
           Some e \<Rightarrow> ((A', b), evsA, Some e)
         | None \<Rightarrow>
             (let (b', evsb, errb) = assemble_vector asm b
              in ((A', b'), evsA @ evsb, errb)))"

section \<open>Concrete inputs\<close>

text \<open>
  A mesh of one cell, on one rank and on two ranks. Two spaces of a mixed problem,
  numbered the way a mixed space numbers its components: \<open>ex_V\<close> has the dofs 0 and 1
  on the cell, \<open>ex_Q\<close> has the dofs 2 and 3. Each space contains only itself.
\<close>

definition ex_mesh :: mesh where
  "ex_mesh = \<lparr>mesh_cells = [0], mpi_size = 1\<rparr>"

definition ex_mesh_mpi :: mesh where
  "ex_mesh_mpi = \<lparr>mesh_cells = [0], mpi_size = 2\<rparr>"

definition ex_V :: function_space where
  "ex_V = \<lparr>space_id = 1, cell_dofs = (\<lambda>c. [0, 1]), contains_space = (\<lambda>k. k = 1)\<rparr>"

definition ex_Q :: function_space where
  "ex_Q = \<lparr>space_id = 2, cell_dofs = (\<lambda>c. [2, 3]), contains_space = (\<lambda>k. k = 2)\<rparr>"

text \<open>
  Conditions: dof 0 of \<open>ex_V\<close> is set to 5, dof 2 of \<open>ex_Q\<close> is set to 10, and a
  pointwise condition sets dof 1 of \<open>ex_V\<close> to 3. The gather of the first adds what
  another rank found, dof 1 with value 4.
\<close>

definition ex_bc_V :: dirichlet_bc where
  "ex_bc_V = \<lparr>bc_function_space = ex_V, bc_method = ''topological'',
              get_boundary_values = (\<lambda>m. m(0 \<mapsto> 5)), gather = (\<lambda>m. m(1 \<mapsto> 4))\<rparr>"

definition ex_bc_Q :: dirichlet_bc where
  "ex_bc_Q = \<lparr>bc_function_space = ex_Q, bc_method = ''topological'',
              get_boundary_values = (\<lambda>m. m(2 \<mapsto> 10)), gather = (\<lambda>m. m)\<rparr>"

definition ex_bc_pointwise :: dirichlet_bc where
  "ex_bc_pointwise = \<lparr>bc_function_space = ex_V, bc_method = ''pointwise'',
              get_boundary_values = (\<lambda>m. m(1 \<mapsto> 3)), gather = (\<lambda>m. m(7 \<mapsto> 9))\<rparr>"

text \<open>
  Forms. The cell tensor of the bilinear forms is the 2 by 2 matrix with rows (2, 3)
  and (5, 7); the cell vector of the linear form is (1, 1).
\<close>

definition ex_a_VV :: form where
  "ex_a_VV = \<lparr>form_mesh = ex_mesh, function_space = (\<lambda>k. ex_V),
              tabulate_tensor = (\<lambda>c. [2, 3, 5, 7])\<rparr>"

definition ex_a_VQ :: form where
  "ex_a_VQ = \<lparr>form_mesh = ex_mesh, function_space = (\<lambda>k. if k = 0 then ex_V else ex_Q),
              tabulate_tensor = (\<lambda>c. [2, 3, 5, 7])\<rparr>"

definition ex_a_mpi :: form where
  "ex_a_mpi = \<lparr>form_mesh = ex_mesh_mpi, function_space = (\<lambda>k. ex_V),
              tabulate_tensor = (\<lambda>c. [2, 3, 5, 7])\<rparr>"

definition ex_L :: form where
  "ex_L = \<lparr>form_mesh = ex_mesh, function_space = (\<lambda>k. ex_V),
           tabulate_tensor = (\<lambda>c. [1, 1])\<rparr>"

definition ex_L_mpi :: form where
  "ex_L_mpi = \<lparr>form_mesh = ex_mesh_mpi, function_space = (\<lambda>k. ex_V),
           tabulate_tensor = (\<lambda>c. [1, 1])\<rparr>"

text \<open>
  Assemblers: one form; a table of one row and two columns; a table of two rows with
  one linear form; a table with an absent entry in its first row.
\<close>

definition ex_asm_single :: assembler where
  "ex_asm_single = \<lparr>forms_a = [[Some ex_a_VV]], forms_l = [ex_L], bcs = [ex_bc_V]\<rparr>"

definition ex_asm_block :: assembler where
  "ex_asm_block =
     \<lparr>forms_a = [[Some ex_a_VV, Some ex_a_VQ]], forms_l = [ex_L], bcs = [ex_bc_V]\<rparr>"

definition ex_asm_two_rows :: assembler where
  "ex_asm_two_rows =
     \<lparr>forms_a = [[Some ex_a_VV], [Some ex_a_VQ]], forms_l = [ex_L], bcs = [ex_bc_V]\<rparr>"

definition ex_asm_absent :: assembler where
  "ex_asm_absent =
     \<lparr>forms_a = [[Some ex_a_VV, None]], forms_l = [ex_L], bcs = [ex_bc_V]\<rparr>"

text \<open>Two linear forms over a table of one row.\<close>

definition ex_asm_two_linear :: assembler where
  "ex_asm_two_linear = \<lparr>forms_a = [[Some ex_a_VV]], forms_l = [ex_L, ex_L], bcs = [ex_bc_V]\<rparr>"

lemmas ex_defs =
  ex_mesh_def ex_mesh_mpi_def ex_V_def ex_Q_def ex_bc_V_def ex_bc_Q_def ex_bc_pointwise_def
  ex_a_VV_def ex_a_VQ_def ex_a_mpi_def ex_L_def ex_L_mpi_def
  ex_asm_single_def ex_asm_block_def ex_asm_two_rows_def ex_asm_absent_def
  ex_asm_two_linear_def

section \<open>Local elimination and scatter\<close>

lemma fold_row_zero:
  "fold (\<lambda>i M. if P i then set_row_zero i M else M) [0..<n] Ae =
     Ae\<lparr>coeff := (\<lambda>r c. if r < n \<and> P r then 0 else coeff Ae r c)\<rparr>"
proof (induction n)
  case 0
  then show ?case by simp
next
  case (Suc n)
  then show ?case
    by (auto simp: set_row_zero_def fun_eq_iff less_Suc_eq intro!: eigen_matrix.equality)
qed

lemma fold_col_zero:
  "fold (\<lambda>j M. if P j then set_col_zero j M else M) [0..<n] Ae =
     Ae\<lparr>coeff := (\<lambda>r c. if c < n \<and> P c then 0 else coeff Ae r c)\<rparr>"
proof (induction n)
  case 0
  then show ?case by simp
next
  case (Suc n)
  then show ?case
    by (auto simp: set_col_zero_def fun_eq_iff less_Suc_eq intro!: eigen_matrix.equality)
qed

lemma zero_bc_rows_eq:
  "zero_bc_rows bv d Ae =
     Ae\<lparr>coeff := (\<lambda>r c. if r < nrows Ae \<and> bv (d ! r) \<noteq> None then 0 else coeff Ae r c)\<rparr>"
  unfolding zero_bc_rows_def by (rule fold_row_zero)

lemma zero_bc_cols_eq:
  "zero_bc_cols bv d Ae =
     Ae\<lparr>coeff := (\<lambda>r c. if c < ncols Ae \<and> bv (d ! c) \<noteq> None then 0 else coeff Ae r c)\<rparr>"
  unfolding zero_bc_cols_def by (rule fold_col_zero)

lemma zero_bc_commute:
  "zero_bc_rows bv0 d0 (zero_bc_cols bv1 d1 Ae) = zero_bc_cols bv1 d1 (zero_bc_rows bv0 d0 Ae)"
  by (auto simp: zero_bc_rows_eq zero_bc_cols_eq fun_eq_iff intro!: eigen_matrix.equality)

lemma add_entry_other: "r' \<noteq> r \<or> c' \<noteq> c \<Longrightarrow> add_entry r' c' x A r c = A r c"
  by (auto simp: add_entry_def)

lemma add_entry_zero: "add_entry r' c' 0 A = A"
  by (auto simp: add_entry_def fun_eq_iff)

lemma fold_add_entry_inner:
  "(\<And>j. j \<in> set js \<Longrightarrow> rw = r \<Longrightarrow> cols ! j = c \<Longrightarrow> f j = 0) \<Longrightarrow>
   fold (\<lambda>j. add_entry rw (cols ! j) (f j)) js A r c = A r c"
proof (induction js arbitrary: A)
  case Nil
  then show ?case by simp
next
  case (Cons j js)
  have "fold (\<lambda>j. add_entry rw (cols ! j) (f j)) js (add_entry rw (cols ! j) (f j) A) r c
        = add_entry rw (cols ! j) (f j) A r c"
    using Cons.prems by (intro Cons.IH) auto
  also have "\<dots> = A r c"
  proof (cases "rw = r \<and> cols ! j = c")
    case True
    then have "f j = 0" using Cons.prems by auto
    then show ?thesis by (simp add: add_entry_zero)
  next
    case False
    then show ?thesis by (auto simp: add_entry_other)
  qed
  finally show ?case by simp
qed

lemma fold_add_entry_outer:
  "(\<And>i j. i \<in> set is \<Longrightarrow> j \<in> set js \<Longrightarrow> rows ! i = r \<Longrightarrow> cols ! j = c \<Longrightarrow> g i j = 0) \<Longrightarrow>
   fold (\<lambda>i. fold (\<lambda>j. add_entry (rows ! i) (cols ! j) (g i j)) js) is A r c = A r c"
proof (induction "is" arbitrary: A)
  case Nil
  then show ?case by simp
next
  case (Cons i "is")
  have "fold (\<lambda>i. fold (\<lambda>j. add_entry (rows ! i) (cols ! j) (g i j)) js) is
          (fold (\<lambda>j. add_entry (rows ! i) (cols ! j) (g i j)) js A) r c
        = fold (\<lambda>j. add_entry (rows ! i) (cols ! j) (g i j)) js A r c"
    using Cons.prems by (intro Cons.IH) auto
  also have "\<dots> = A r c"
    using Cons.prems by (intro fold_add_entry_inner) auto
  finally show ?case by simp
qed

lemma mat_add_local_unchanged:
  "(\<And>i j. i < length rows \<Longrightarrow> j < length cols \<Longrightarrow> rows ! i = r \<Longrightarrow> cols ! j = c
      \<Longrightarrow> coeff Ae i j = 0)
   \<Longrightarrow> mat_add_local Ae rows cols A r c = A r c"
  unfolding mat_add_local_def by (rule fold_add_entry_outer) auto

lemma assemble_cell_bc_row:
  "bv0 r \<noteq> None \<Longrightarrow> assemble_cell a bv0 bv1 cl A r c = A r c"
  unfolding assemble_cell_def Let_def
  by (rule mat_add_local_unchanged)
     (auto simp: zero_bc_rows_eq zero_bc_cols_eq tabulate_matrix_def)

lemma assemble_cell_bc_col:
  "bv1 c \<noteq> None \<Longrightarrow> assemble_cell a bv0 bv1 cl A r c = A r c"
  unfolding assemble_cell_def Let_def
  by (rule mat_add_local_unchanged)
     (auto simp: zero_bc_rows_eq zero_bc_cols_eq tabulate_matrix_def)

lemma coeff_eliminated:
  "coeff (zero_bc_cols bv1 d1 (zero_bc_rows bv0 d0 Ae)) i j =
     (if (i < nrows Ae \<and> bv0 (d0 ! i) \<noteq> None) \<or> (j < ncols Ae \<and> bv1 (d1 ! j) \<noteq> None)
      then 0 else coeff Ae i j)"
  by (cases "bv0 (d0 ! i)"; cases "bv1 (d1 ! j)"; simp add: zero_bc_rows_eq zero_bc_cols_eq)

lemma shape_tabulate_matrix:
  "nrows (tabulate_matrix a cl m n) = m" "ncols (tabulate_matrix a cl m n) = n"
  by (simp_all add: tabulate_matrix_def)

text \<open>
  C8. In the cell loop of the matrix assembly, the local matrix that is scattered has
  every row with a boundary value on axis 0 and every column with a boundary value on
  axis 1 set to zero and every other entry as tabulated; the source zeroes the rows
  first and the columns second, the other order gives the same local matrix, and the
  scatter-add receives the matrix after both passes, so that the cell adds nothing to a
  global row or column that carries a boundary value.
\<close>

theorem boundary_elimination_rows_then_columns:
  "(let dmap0 = cell_dofs (function_space a 0) cl;
        dmap1 = cell_dofs (function_space a 1) cl;
        Ae = tabulate_matrix a cl (length dmap0) (length dmap1);
        E = zero_bc_cols bv1 dmap1 (zero_bc_rows bv0 dmap0 Ae)
    in (\<forall>i j. coeff E i j =
              (if (i < length dmap0 \<and> bv0 (dmap0 ! i) \<noteq> None)
                  \<or> (j < length dmap1 \<and> bv1 (dmap1 ! j) \<noteq> None)
               then 0 else coeff Ae i j))
       \<and> zero_bc_rows bv0 dmap0 (zero_bc_cols bv1 dmap1 Ae) = E
       \<and> assemble_cell a bv0 bv1 cl A = mat_add_local E dmap0 dmap1 A
       \<and> (\<forall>r c. bv0 r \<noteq> None \<or> bv1 c \<noteq> None \<longrightarrow> assemble_cell a bv0 bv1 cl A r c = A r c))"
proof -
  define dmap0 where "dmap0 = cell_dofs (function_space a 0) cl"
  define dmap1 where "dmap1 = cell_dofs (function_space a 1) cl"
  define Ae where "Ae = tabulate_matrix a cl (length dmap0) (length dmap1)"
  define E where "E = zero_bc_cols bv1 dmap1 (zero_bc_rows bv0 dmap0 Ae)"
  have shape: "nrows Ae = length dmap0" "ncols Ae = length dmap1"
    by (simp_all add: Ae_def shape_tabulate_matrix)
  have 1: "\<forall>i j. coeff E i j =
              (if (i < length dmap0 \<and> bv0 (dmap0 ! i) \<noteq> None)
                  \<or> (j < length dmap1 \<and> bv1 (dmap1 ! j) \<noteq> None)
               then 0 else coeff Ae i j)"
    unfolding E_def coeff_eliminated shape by (intro allI refl)
  have 2: "zero_bc_rows bv0 dmap0 (zero_bc_cols bv1 dmap1 Ae) = E"
    unfolding E_def by (rule zero_bc_commute)
  have 3: "assemble_cell a bv0 bv1 cl A = mat_add_local E dmap0 dmap1 A"
    unfolding E_def Ae_def dmap0_def dmap1_def assemble_cell_def Let_def by (rule refl)
  have 4: "\<forall>r c. bv0 r \<noteq> None \<or> bv1 c \<noteq> None \<longrightarrow> assemble_cell a bv0 bv1 cl A r c = A r c"
  proof (intro allI impI)
    fix r c
    assume "bv0 r \<noteq> None \<or> bv1 c \<noteq> None"
    then show "assemble_cell a bv0 bv1 cl A r c = A r c"
    proof
      assume "bv0 r \<noteq> None"
      then show ?thesis by (rule assemble_cell_bc_row)
    next
      assume "bv1 c \<noteq> None"
      then show ?thesis by (rule assemble_cell_bc_col)
    qed
  qed
  from 1 2 3 4 show ?thesis
    unfolding Let_def E_def Ae_def dmap0_def dmap1_def by (intro conjI)
qed

text \<open>
  The theorem at \<open>ex_a_VV\<close> with dof 0 constrained on both axes: of the tabulated
  entries 2, 3, 5, 7 only the 7 at local position (1, 1) survives, and the cell adds
  nothing to global row 0.
\<close>

theorem boundary_elimination_witness:
  "(Map.empty(0 \<mapsto> 5 :: real)) (0 :: nat) \<noteq> None
   \<and> coeff (zero_bc_cols (Map.empty(0 \<mapsto> 5)) [0, 1]
              (zero_bc_rows (Map.empty(0 \<mapsto> 5)) [0, 1] (tabulate_matrix ex_a_VV 0 2 2))) 0 1 = 0
   \<and> coeff (zero_bc_cols (Map.empty(0 \<mapsto> 5)) [0, 1]
              (zero_bc_rows (Map.empty(0 \<mapsto> 5)) [0, 1] (tabulate_matrix ex_a_VV 0 2 2))) 1 1 = 7
   \<and> assemble_cell ex_a_VV (Map.empty(0 \<mapsto> 5)) (Map.empty(0 \<mapsto> 5)) 0 (\<lambda>r c. 0) 0 1 = 0"
  using boundary_elimination_rows_then_columns
          [of ex_a_VV 0 "Map.empty(0 \<mapsto> 5)" "Map.empty(0 \<mapsto> 5)" "\<lambda>r c. 0"]
  by (simp add: Let_def ex_defs tabulate_matrix_def zero_bc_rows_eq zero_bc_cols_eq
        assemble_cell_def mat_add_local_def add_entry_def)


section \<open>Matrix assembly of one form\<close>

lemma fst_assemble_cells_Cons:
  "fst (assemble_cells a bv0 bv1 (c # cs) A) =
     fst (assemble_cells a bv0 bv1 cs (assemble_cell a bv0 bv1 c A))"
  by (simp add: case_prod_beta)

lemma snd_assemble_cells:
  "snd (assemble_cells a bv0 bv1 cs A) = concat (map (\<lambda>c. [TabulateTensor c, AddLocal c]) cs)"
  by (induction cs arbitrary: A) (simp_all add: case_prod_beta)

lemma assemble_cells_bc_row:
  "bv0 r \<noteq> None \<Longrightarrow> fst (assemble_cells a bv0 bv1 cs A) r c = A r c"
proof (induction cs arbitrary: A)
  case Nil
  then show ?case by simp
next
  case (Cons cl cs)
  show ?case
    using Cons.IH[OF Cons.prems] Cons.prems
    by (simp add: fst_assemble_cells_Cons assemble_cell_bc_row del: assemble_cells.simps)
qed

lemma fst_assemble_form:
  "fst (assemble_form a bs A) =
     (let A0 = (case A of Uninitialised \<Rightarrow> init_matrix a | Entries v \<Rightarrow> v);
          bv = fst (collect_bcs_matrix a 0 bs (Map.empty, Map.empty));
          A1 = fst (assemble_cells a (fst bv) (snd bv) (mesh_cells (form_mesh a)) A0)
      in if space_id (function_space a 0) = space_id (function_space a 1)
         then zero_local (\<lambda>r. fst bv r \<noteq> None) 1 A1 else A1)"
  by (simp add: assemble_form_def Let_def case_prod_beta split: sparse_matrix.splits)

lemma snd_assemble_form:
  "snd (assemble_form a bs A) =
     (case A of Uninitialised \<Rightarrow> [Init] | Entries v \<Rightarrow> [])
     @ snd (collect_bcs_matrix a 0 bs (Map.empty, Map.empty))
     @ concat (map (\<lambda>c. [TabulateTensor c, AddLocal c]) (mesh_cells (form_mesh a)))
     @ (if space_id (function_space a 0) = space_id (function_space a 1)
        then [Apply, ZeroLocal] else [Apply])"
  by (simp add: assemble_form_def Let_def case_prod_beta snd_assemble_cells split: sparse_matrix.splits)

lemma resolve_bc_calls:
  "c \<in> set (snd (resolve_bc nproc V axis i bc m)) \<Longrightarrow>
     c = GetBoundaryValues i axis \<or> c = Gather i axis"
  by (auto simp: resolve_bc_def split: if_splits)

lemma collect_bcs_matrix_calls:
  "c \<in> set (snd (collect_bcs_matrix a i bs ms)) \<Longrightarrow>
     (\<exists>k ax. c = GetBoundaryValues k ax) \<or> (\<exists>k ax. c = Gather k ax)"
proof (induction bs arbitrary: i ms)
  case Nil
  then show ?case by (cases ms) simp
next
  case (Cons bc bs)
  obtain m0 m1 where ms: "ms = (m0, m1)" by (cases ms)
  from Cons.prems show ?case
    unfolding ms
    by (auto simp: case_prod_beta Let_def dest!: Cons.IH resolve_bc_calls)
qed

lemma collect_bcs_calls:
  "c \<in> set (snd (collect_bcs nproc V axis i bs m)) \<Longrightarrow>
     (\<exists>k. c = GetBoundaryValues k axis) \<or> (\<exists>k. c = Gather k axis)"
proof (induction bs arbitrary: i m)
  case Nil
  then show ?case by simp
next
  case (Cons bc bs)
  from Cons.prems show ?case
    by (auto simp: case_prod_beta Let_def dest!: Cons.IH resolve_bc_calls)
qed

lemma cell_calls_not_finalize:
  "Apply \<notin> set (concat (map (\<lambda>c. [TabulateTensor c, AddLocal c]) cs))"
  "ZeroLocal \<notin> set (concat (map (\<lambda>c. [TabulateTensor c, AddLocal c]) cs))"
  by auto

text \<open>
  C5. In the matrix assembly of one form into a matrix that is empty or freshly
  initialised: when the two spaces are the same object, \<^verbatim>\<open>zero_local\<close> is the last
  call, after the cell loop and the finalize, every row with a boundary value on axis 0
  ends with 1 on the diagonal and 0 elsewhere, and the other rows are as the cell loop
  left them; when the spaces differ, the finalize is the last call, no diagonal is
  written, and the matrix is as the cell loop left it.
\<close>

theorem diagonal_written_iff_same_space:
  assumes fresh: "A = Uninitialised \<or> A = Entries (\<lambda>r c. 0)"
  shows
    "(let bv0 = fst (fst (collect_bcs_matrix a 0 bs (Map.empty, Map.empty)));
          bv1 = snd (fst (collect_bcs_matrix a 0 bs (Map.empty, Map.empty)));
          loop = fst (assemble_cells a bv0 bv1 (mesh_cells (form_mesh a)) (\<lambda>r c. 0));
          calls = snd (assemble_form a bs A)
      in if space_id (function_space a 0) = space_id (function_space a 1)
         then (\<forall>r c. bv0 r \<noteq> None \<longrightarrow> fst (assemble_form a bs A) r c = (if c = r then 1 else 0))
              \<and> (\<forall>r c. bv0 r = None \<longrightarrow> fst (assemble_form a bs A) r c = loop r c)
              \<and> (\<exists>pre. calls = pre @ [Apply, ZeroLocal]
                        \<and> Apply \<notin> set pre \<and> ZeroLocal \<notin> set pre)
         else fst (assemble_form a bs A) = loop
              \<and> (\<exists>pre. calls = pre @ [Apply]
                        \<and> Apply \<notin> set pre \<and> ZeroLocal \<notin> set pre))"
proof -
  define bv where "bv = fst (collect_bcs_matrix a 0 bs (Map.empty, Map.empty))"
  define loop where
    "loop = fst (assemble_cells a (fst bv) (snd bv) (mesh_cells (form_mesh a)) (\<lambda>r c. 0))"
  define pre where
    "pre = (case A of Uninitialised \<Rightarrow> [Init] | Entries v \<Rightarrow> [])
           @ snd (collect_bcs_matrix a 0 bs (Map.empty, Map.empty))
           @ concat (map (\<lambda>c. [TabulateTensor c, AddLocal c]) (mesh_cells (form_mesh a)))"
  have A0: "(case A of Uninitialised \<Rightarrow> init_matrix a | Entries v \<Rightarrow> v) = (\<lambda>r c. 0)"
    using fresh by (auto simp: init_matrix_def)
  have val: "fst (assemble_form a bs A) =
               (if space_id (function_space a 0) = space_id (function_space a 1)
                then zero_local (\<lambda>r. fst bv r \<noteq> None) 1 loop else loop)"
    by (simp add: fst_assemble_form A0 Let_def bv_def loop_def)
  have calls: "snd (assemble_form a bs A) =
                 pre @ (if space_id (function_space a 0) = space_id (function_space a 1)
                        then [Apply, ZeroLocal] else [Apply])"
    by (simp add: snd_assemble_form pre_def)
  have pre: "Apply \<notin> set pre" "ZeroLocal \<notin> set pre"
    using collect_bcs_matrix_calls[of _ a 0 bs "(Map.empty, Map.empty)"] fresh
    by (auto simp: pre_def)
  have constrained: "loop r c = 0" if "fst bv r \<noteq> None" for r c
    unfolding loop_def using that by (simp add: assemble_cells_bc_row)
  show ?thesis
  proof (cases "space_id (function_space a 0) = space_id (function_space a 1)")
    case True
    have "\<forall>r c. fst bv r \<noteq> None \<longrightarrow> fst (assemble_form a bs A) r c = (if c = r then 1 else 0)"
      using True constrained by (simp add: val zero_local_def)
    moreover have "\<forall>r c. fst bv r = None \<longrightarrow> fst (assemble_form a bs A) r c = loop r c"
      using True by (simp add: val zero_local_def)
    moreover have "\<exists>p. snd (assemble_form a bs A) = p @ [Apply, ZeroLocal]
                     \<and> Apply \<notin> set p \<and> ZeroLocal \<notin> set p"
      using True pre calls by auto
    ultimately show ?thesis
      using True unfolding Let_def bv_def[symmetric] loop_def[symmetric] by simp
  next
    case False
    have "fst (assemble_form a bs A) = loop"
      using False by (simp add: val)
    moreover have "\<exists>p. snd (assemble_form a bs A) = p @ [Apply]
                     \<and> Apply \<notin> set p \<and> ZeroLocal \<notin> set p"
      using False pre calls by auto
    ultimately show ?thesis
      using False unfolding Let_def bv_def[symmetric] loop_def[symmetric] by simp
  qed
qed


text \<open>
  The theorem at \<open>ex_a_VV\<close> (one space, dof 0 constrained) and at \<open>ex_a_VQ\<close> (two
  spaces).
\<close>

theorem diagonal_written_witness:
  "fst (fst (collect_bcs_matrix ex_a_VV 0 [ex_bc_V] (Map.empty, Map.empty))) 0 \<noteq> None
   \<and> fst (assemble_form ex_a_VV [ex_bc_V] Uninitialised) 0 0 = 1
   \<and> fst (assemble_form ex_a_VV [ex_bc_V] Uninitialised) 0 1 = 0
   \<and> fst (assemble_form ex_a_VV [ex_bc_V] Uninitialised) 1 1 = 7
   \<and> snd (assemble_form ex_a_VV [ex_bc_V] Uninitialised) =
       [Init, GetBoundaryValues 0 0, GetBoundaryValues 0 1, TabulateTensor 0, AddLocal 0,
        Apply, ZeroLocal]
   \<and> snd (assemble_form ex_a_VQ [ex_bc_V] Uninitialised) =
       [Init, GetBoundaryValues 0 0, TabulateTensor 0, AddLocal 0, Apply]"
  using diagonal_written_iff_same_space [of Uninitialised ex_a_VV "[ex_bc_V]"]
        diagonal_written_iff_same_space [of Uninitialised ex_a_VQ "[ex_bc_V]"]
  by (simp add: Let_def ex_defs assemble_form_def resolve_bc_def init_matrix_def zero_local_def
        assemble_cell_def tabulate_matrix_def zero_bc_rows_eq zero_bc_cols_eq
        mat_add_local_def add_entry_def)

section \<open>Properties of the public entry points\<close>

text \<open>
  C4. When the table of forms has a first row to read and the matrix is not empty,
  \<^verbatim>\<open>assemble(A)\<close> fails with \<open>NotImplemented\<close>, has made no call and leaves the
  matrix as it was.
\<close>

theorem reinitialisation_not_implemented:
  assumes "forms_a asm \<noteq> []" and "\<not> empty_matrix A"
  shows "assemble_matrix asm A = (A, [], Some NotImplemented)"
  using assms by (cases "forms_a asm") (simp_all add: assemble_matrix_def Let_def)

text \<open>The theorem at an initialised nest and at an initialised plain matrix.\<close>

theorem reinitialisation_witness:
  "forms_a ex_asm_block \<noteq> []
   \<and> \<not> empty_matrix (MatNest 1 2 [Some (Entries (\<lambda>r c. 0)), Some (Entries (\<lambda>r c. 0))])
   \<and> assemble_matrix ex_asm_block (MatNest 1 2 [Some (Entries (\<lambda>r c. 0)), Some (Entries (\<lambda>r c. 0))])
       = (MatNest 1 2 [Some (Entries (\<lambda>r c. 0)), Some (Entries (\<lambda>r c. 0))], [], Some NotImplemented)
   \<and> assemble_matrix ex_asm_single (Plain (Entries (\<lambda>r c. 1)))
       = (Plain (Entries (\<lambda>r c. 1)), [], Some NotImplemented)"
  using reinitialisation_not_implemented
          [of ex_asm_block "MatNest 1 2 [Some (Entries (\<lambda>r c. 0)), Some (Entries (\<lambda>r c. 0))]"]
        reinitialisation_not_implemented [of ex_asm_single "Plain (Entries (\<lambda>r c. 1))"]
  by (simp add: ex_defs)

text \<open>
  C10. \<^verbatim>\<open>assemble(A, b)\<close> is \<^verbatim>\<open>assemble(A)\<close> followed by \<^verbatim>\<open>assemble(b)\<close>: the
  matrix is what the first leaves, and when the first returns, the vector, the failure
  and the rest of the log are what the second gives on the same assembler and the
  untouched vector; when the first fails, the vector is untouched.
\<close>

theorem assemble_system_is_sequential_composition:
  "fst (fst (assemble_system asm A b)) = fst (assemble_matrix asm A)
   \<and> (snd (snd (assemble_matrix asm A)) = None \<longrightarrow>
        snd (fst (assemble_system asm A b)) = fst (assemble_vector asm b)
        \<and> fst (snd (assemble_system asm A b)) =
            fst (snd (assemble_matrix asm A)) @ fst (snd (assemble_vector asm b))
        \<and> snd (snd (assemble_system asm A b)) = snd (snd (assemble_vector asm b)))
   \<and> (snd (snd (assemble_matrix asm A)) \<noteq> None \<longrightarrow>
        snd (fst (assemble_system asm A b)) = b
        \<and> snd (assemble_system asm A b) = snd (assemble_matrix asm A))"
proof -
  obtain A' evsA errA where m: "assemble_matrix asm A = (A', evsA, errA)"
    by (cases "assemble_matrix asm A") auto
  obtain b' evsb errb where v: "assemble_vector asm b = (b', evsb, errb)"
    by (cases "assemble_vector asm b") auto
  show ?thesis
    by (cases errA) (simp_all add: assemble_system_def m v)
qed

section \<open>Which conditions are resolved and gathered\<close>

lemma resolve_bc_gather_iff:
  "Gather k ax \<in> set (snd (resolve_bc nproc V axis i bc m)) \<longleftrightarrow>
     k = i \<and> ax = axis \<and> contains_space V (space_id (bc_function_space bc))
     \<and> 1 < nproc \<and> bc_method bc \<noteq> ''pointwise''"
  by (auto simp: resolve_bc_def)

lemma resolve_bc_get_iff:
  "GetBoundaryValues k ax \<in> set (snd (resolve_bc nproc V axis i bc m)) \<longleftrightarrow>
     k = i \<and> ax = axis \<and> contains_space V (space_id (bc_function_space bc))"
  by (auto simp: resolve_bc_def)

lemma snd_collect_bcs_Cons:
  "snd (collect_bcs nproc V axis i (bc # bs) m) =
     snd (resolve_bc nproc V axis i bc m)
     @ snd (collect_bcs nproc V axis (Suc i) bs (fst (resolve_bc nproc V axis i bc m)))"
  by (simp add: case_prod_beta)

lemma nth_Cons_shift: "Suc i \<le> k \<Longrightarrow> (x # xs) ! (k - i) = xs ! (k - Suc i)"
  by (simp add: nth_Cons' Suc_le_eq)

lemma collect_bcs_gather_iff:
  "Gather k ax \<in> set (snd (collect_bcs nproc V axis i bs m)) \<longleftrightarrow>
     ax = axis \<and> i \<le> k \<and> k < i + length bs
     \<and> contains_space V (space_id (bc_function_space (bs ! (k - i))))
     \<and> 1 < nproc \<and> bc_method (bs ! (k - i)) \<noteq> ''pointwise''"
proof (induction bs arbitrary: i m)
  case Nil
  then show ?case by simp
next
  case (Cons bc bs)
  let ?P = "\<lambda>x. contains_space V (space_id (bc_function_space x))
                \<and> 1 < nproc \<and> bc_method x \<noteq> ''pointwise''"
  have "Gather k ax \<in> set (snd (collect_bcs nproc V axis i (bc # bs) m)) \<longleftrightarrow>
          (k = i \<and> ax = axis \<and> ?P bc)
          \<or> (ax = axis \<and> Suc i \<le> k \<and> k < Suc i + length bs \<and> ?P (bs ! (k - Suc i)))"
    by (simp add: snd_collect_bcs_Cons resolve_bc_gather_iff Cons.IH del: collect_bcs.simps)
  also have "\<dots> \<longleftrightarrow> ax = axis \<and> i \<le> k \<and> k < i + length (bc # bs) \<and> ?P ((bc # bs) ! (k - i))"
  proof (cases "k = i")
    case True
    then show ?thesis by auto
  next
    case False
    show ?thesis
    proof (cases "Suc i \<le> k")
      case True
      then show ?thesis using False by (simp add: nth_Cons_shift)
    next
      case False
      then show ?thesis using \<open>k \<noteq> i\<close> by auto
    qed
  qed
  finally show ?case by simp
qed

lemma collect_bcs_get_iff:
  "GetBoundaryValues k ax \<in> set (snd (collect_bcs nproc V axis i bs m)) \<longleftrightarrow>
     ax = axis \<and> i \<le> k \<and> k < i + length bs
     \<and> contains_space V (space_id (bc_function_space (bs ! (k - i))))"
proof (induction bs arbitrary: i m)
  case Nil
  then show ?case by simp
next
  case (Cons bc bs)
  let ?P = "\<lambda>x. contains_space V (space_id (bc_function_space x))"
  have "GetBoundaryValues k ax \<in> set (snd (collect_bcs nproc V axis i (bc # bs) m)) \<longleftrightarrow>
          (k = i \<and> ax = axis \<and> ?P bc)
          \<or> (ax = axis \<and> Suc i \<le> k \<and> k < Suc i + length bs \<and> ?P (bs ! (k - Suc i)))"
    by (simp add: snd_collect_bcs_Cons resolve_bc_get_iff Cons.IH del: collect_bcs.simps)
  also have "\<dots> \<longleftrightarrow> ax = axis \<and> i \<le> k \<and> k < i + length (bc # bs) \<and> ?P ((bc # bs) ! (k - i))"
  proof (cases "k = i")
    case True
    then show ?thesis by auto
  next
    case False
    show ?thesis
    proof (cases "Suc i \<le> k")
      case True
      then show ?thesis using False by (simp add: nth_Cons_shift)
    next
      case False
      then show ?thesis using \<open>k \<noteq> i\<close> by auto
    qed
  qed
  finally show ?case by simp
qed

lemma snd_collect_bcs_matrix_Cons:
  "snd (collect_bcs_matrix a i (bc # bs) (m0, m1)) =
     snd (resolve_bc (mpi_size (form_mesh a)) (function_space a 0) 0 i bc m0)
     @ snd (resolve_bc (mpi_size (form_mesh a)) (function_space a 1) 1 i bc m1)
     @ snd (collect_bcs_matrix a (Suc i) bs
             (fst (resolve_bc (mpi_size (form_mesh a)) (function_space a 0) 0 i bc m0),
              fst (resolve_bc (mpi_size (form_mesh a)) (function_space a 1) 1 i bc m1)))"
  by (simp add: case_prod_beta Let_def)

lemma collect_bcs_matrix_gather_iff:
  "Gather k ax \<in> set (snd (collect_bcs_matrix a i bs ms)) \<longleftrightarrow>
     ax < 2 \<and> i \<le> k \<and> k < i + length bs
     \<and> contains_space (function_space a ax) (space_id (bc_function_space (bs ! (k - i))))
     \<and> 1 < mpi_size (form_mesh a) \<and> bc_method (bs ! (k - i)) \<noteq> ''pointwise''"
proof (induction bs arbitrary: i ms)
  case Nil
  then show ?case by (cases ms) simp
next
  case (Cons bc bs)
  obtain m0 m1 where ms: "ms = (m0, m1)" by (cases ms)
  let ?P = "\<lambda>x. contains_space (function_space a ax) (space_id (bc_function_space x))
                \<and> 1 < mpi_size (form_mesh a) \<and> bc_method x \<noteq> ''pointwise''"
  have ax: "ax < 2 \<longleftrightarrow> ax = 0 \<or> ax = 1" by auto
  have "Gather k ax \<in> set (snd (collect_bcs_matrix a i (bc # bs) ms)) \<longleftrightarrow>
          (k = i \<and> ax < 2 \<and> ?P bc)
          \<or> (ax < 2 \<and> Suc i \<le> k \<and> k < Suc i + length bs \<and> ?P (bs ! (k - Suc i)))"
    unfolding ms snd_collect_bcs_matrix_Cons
    by (auto simp: resolve_bc_gather_iff Cons.IH ax)
  also have "\<dots> \<longleftrightarrow> ax < 2 \<and> i \<le> k \<and> k < i + length (bc # bs) \<and> ?P ((bc # bs) ! (k - i))"
  proof (cases "k = i")
    case True
    then show ?thesis by auto
  next
    case False
    show ?thesis
    proof (cases "Suc i \<le> k")
      case True
      then show ?thesis using False by (simp add: nth_Cons_shift)
    next
      case False
      then show ?thesis using \<open>k \<noteq> i\<close> by auto
    qed
  qed
  finally show ?case by simp
qed

lemma collect_bcs_matrix_get_iff:
  "GetBoundaryValues k ax \<in> set (snd (collect_bcs_matrix a i bs ms)) \<longleftrightarrow>
     ax < 2 \<and> i \<le> k \<and> k < i + length bs
     \<and> contains_space (function_space a ax) (space_id (bc_function_space (bs ! (k - i))))"
proof (induction bs arbitrary: i ms)
  case Nil
  then show ?case by (cases ms) simp
next
  case (Cons bc bs)
  obtain m0 m1 where ms: "ms = (m0, m1)" by (cases ms)
  let ?P = "\<lambda>x. contains_space (function_space a ax) (space_id (bc_function_space x))"
  have ax: "ax < 2 \<longleftrightarrow> ax = 0 \<or> ax = 1" by auto
  have "GetBoundaryValues k ax \<in> set (snd (collect_bcs_matrix a i (bc # bs) ms)) \<longleftrightarrow>
          (k = i \<and> ax < 2 \<and> ?P bc)
          \<or> (ax < 2 \<and> Suc i \<le> k \<and> k < Suc i + length bs \<and> ?P (bs ! (k - Suc i)))"
    unfolding ms snd_collect_bcs_matrix_Cons
    by (auto simp: resolve_bc_get_iff Cons.IH ax)
  also have "\<dots> \<longleftrightarrow> ax < 2 \<and> i \<le> k \<and> k < i + length (bc # bs) \<and> ?P ((bc # bs) ! (k - i))"
  proof (cases "k = i")
    case True
    then show ?thesis by auto
  next
    case False
    show ?thesis
    proof (cases "Suc i \<le> k")
      case True
      then show ?thesis using False by (simp add: nth_Cons_shift)
    next
      case False
      then show ?thesis using \<open>k \<noteq> i\<close> by auto
    qed
  qed
  finally show ?case by simp
qed

lemma fst_resolve_bc:
  "fst (resolve_bc nproc V axis i bc m) =
     (if contains_space V (space_id (bc_function_space bc)) then
        (if 1 < nproc \<and> bc_method bc \<noteq> ''pointwise''
         then gather bc (get_boundary_values bc m) else get_boundary_values bc m)
      else m)"
  by (simp add: resolve_bc_def)

lemma fst_collect_bcs:
  "fst (collect_bcs nproc V axis i bs m) =
     fold (\<lambda>bc m. fst (resolve_bc nproc V axis 0 bc m)) bs m"
  by (induction bs arbitrary: i m) (simp_all add: case_prod_beta fst_resolve_bc)

lemma fst_collect_bcs_matrix:
  "fst (collect_bcs_matrix a i bs (m0, m1)) =
     (fold (\<lambda>bc m. fst (resolve_bc (mpi_size (form_mesh a)) (function_space a 0) 0 0 bc m)) bs m0,
      fold (\<lambda>bc m. fst (resolve_bc (mpi_size (form_mesh a)) (function_space a 1) 1 0 bc m)) bs m1)"
  by (induction bs arbitrary: i m0 m1) (simp_all add: case_prod_beta Let_def fst_resolve_bc)

lemma apply_bc_cell_calls:
  "c \<in> set (snd (apply_bc_cell a bv cl b)) \<Longrightarrow> c = TabulateTensor cl \<or> c = AddLocal cl"
  by (auto simp: apply_bc_cell_def Let_def split: if_splits)

lemma apply_bc_cells_calls:
  "c \<in> set (snd (apply_bc_cells a bv cs b)) \<Longrightarrow>
     (\<exists>cl. c = TabulateTensor cl) \<or> (\<exists>cl. c = AddLocal cl)"
proof (induction cs arbitrary: b)
  case Nil
  then show ?case by simp
next
  case (Cons cl cs)
  from Cons.prems show ?case
    by (auto simp: case_prod_beta dest!: Cons.IH apply_bc_cell_calls)
qed

lemma snd_apply_bc:
  "snd (apply_bc a bs b) =
     snd (collect_bcs (mpi_size (form_mesh a)) (function_space a 1) 1 0 bs Map.empty)
     @ snd (apply_bc_cells a
              (fst (collect_bcs (mpi_size (form_mesh a)) (function_space a 1) 1 0 bs Map.empty))
              (mesh_cells (form_mesh a)) b)
     @ [Apply]"
  by (simp add: apply_bc_def case_prod_beta)

lemma snd_set_bc:
  "snd (set_bc L bs b) =
     snd (collect_bcs (mpi_size (form_mesh L)) (function_space L 0) 0 0 bs Map.empty)
     @ [SetLocal, Apply]"
  by (simp add: set_bc_def case_prod_beta)

lemma assemble_form_gather_iff:
  "Gather k ax \<in> set (snd (assemble_form a bs A)) \<longleftrightarrow>
     Gather k ax \<in> set (snd (collect_bcs_matrix a 0 bs (Map.empty, Map.empty)))"
  by (cases A) (auto simp: snd_assemble_form)

lemma assemble_form_get_iff:
  "GetBoundaryValues k ax \<in> set (snd (assemble_form a bs A)) \<longleftrightarrow>
     GetBoundaryValues k ax \<in> set (snd (collect_bcs_matrix a 0 bs (Map.empty, Map.empty)))"
  by (cases A) (auto simp: snd_assemble_form)

lemma apply_bc_gather_iff:
  "Gather k ax \<in> set (snd (apply_bc a bs b)) \<longleftrightarrow>
     Gather k ax \<in> set (snd (collect_bcs (mpi_size (form_mesh a)) (function_space a 1) 1 0 bs Map.empty))"
  by (auto simp: snd_apply_bc dest: apply_bc_cells_calls)

lemma apply_bc_get_iff:
  "GetBoundaryValues k ax \<in> set (snd (apply_bc a bs b)) \<longleftrightarrow>
     GetBoundaryValues k ax \<in> set (snd (collect_bcs (mpi_size (form_mesh a)) (function_space a 1) 1 0 bs Map.empty))"
  by (auto simp: snd_apply_bc dest: apply_bc_cells_calls)

text \<open>
  C6. In each of the three resolutions (the two axes of the matrix assembly, axis 1 of
  the lifting, axis 0 of \<^verbatim>\<open>set_bc\<close>), condition \<open>k\<close> is resolved locally exactly when
  the space of that axis contains its space, and it is gathered exactly when it is
  resolved, there is more than one rank and its method is not \<^verbatim>\<open>pointwise\<close>. The map
  of an axis is the initial map taken through the conditions in order, each contained
  condition applying its local resolution and then, under the same test, its gather.
\<close>

theorem gather_iff_distributed_and_not_pointwise:
  "(GetBoundaryValues k ax \<in> set (snd (assemble_form a bs A)) \<longleftrightarrow>
      ax < 2 \<and> k < length bs
      \<and> contains_space (function_space a ax) (space_id (bc_function_space (bs ! k))))
   \<and> (Gather k ax \<in> set (snd (assemble_form a bs A)) \<longleftrightarrow>
      ax < 2 \<and> k < length bs
      \<and> contains_space (function_space a ax) (space_id (bc_function_space (bs ! k)))
      \<and> 1 < mpi_size (form_mesh a) \<and> bc_method (bs ! k) \<noteq> ''pointwise'')
   \<and> (GetBoundaryValues k ax \<in> set (snd (apply_bc a bs b)) \<longleftrightarrow>
      ax = 1 \<and> k < length bs
      \<and> contains_space (function_space a 1) (space_id (bc_function_space (bs ! k))))
   \<and> (Gather k ax \<in> set (snd (apply_bc a bs b)) \<longleftrightarrow>
      ax = 1 \<and> k < length bs
      \<and> contains_space (function_space a 1) (space_id (bc_function_space (bs ! k)))
      \<and> 1 < mpi_size (form_mesh a) \<and> bc_method (bs ! k) \<noteq> ''pointwise'')
   \<and> (GetBoundaryValues k ax \<in> set (snd (set_bc L bs b)) \<longleftrightarrow>
      ax = 0 \<and> k < length bs
      \<and> contains_space (function_space L 0) (space_id (bc_function_space (bs ! k))))
   \<and> (Gather k ax \<in> set (snd (set_bc L bs b)) \<longleftrightarrow>
      ax = 0 \<and> k < length bs
      \<and> contains_space (function_space L 0) (space_id (bc_function_space (bs ! k)))
      \<and> 1 < mpi_size (form_mesh L) \<and> bc_method (bs ! k) \<noteq> ''pointwise'')
   \<and> fst (resolve_bc nproc V axis i bc m) =
        (if contains_space V (space_id (bc_function_space bc)) then
           (if 1 < nproc \<and> bc_method bc \<noteq> ''pointwise''
            then gather bc (get_boundary_values bc m) else get_boundary_values bc m)
         else m)
   \<and> fst (collect_bcs nproc V axis i bs m) =
        fold (\<lambda>bc m. fst (resolve_bc nproc V axis 0 bc m)) bs m
   \<and> fst (collect_bcs_matrix a i bs (m0, m1)) =
        (fold (\<lambda>bc m. fst (resolve_bc (mpi_size (form_mesh a)) (function_space a 0) 0 0 bc m))
           bs m0,
         fold (\<lambda>bc m. fst (resolve_bc (mpi_size (form_mesh a)) (function_space a 1) 1 0 bc m))
           bs m1)"
proof (intro conjI)
  show "GetBoundaryValues k ax \<in> set (snd (assemble_form a bs A)) \<longleftrightarrow>
      ax < 2 \<and> k < length bs
      \<and> contains_space (function_space a ax) (space_id (bc_function_space (bs ! k)))"
    by (simp add: assemble_form_get_iff collect_bcs_matrix_get_iff)
  show "Gather k ax \<in> set (snd (assemble_form a bs A)) \<longleftrightarrow>
      ax < 2 \<and> k < length bs
      \<and> contains_space (function_space a ax) (space_id (bc_function_space (bs ! k)))
      \<and> 1 < mpi_size (form_mesh a) \<and> bc_method (bs ! k) \<noteq> ''pointwise''"
    by (simp add: assemble_form_gather_iff collect_bcs_matrix_gather_iff)
  show "GetBoundaryValues k ax \<in> set (snd (apply_bc a bs b)) \<longleftrightarrow>
      ax = 1 \<and> k < length bs
      \<and> contains_space (function_space a 1) (space_id (bc_function_space (bs ! k)))"
    by (simp add: apply_bc_get_iff collect_bcs_get_iff)
  show "Gather k ax \<in> set (snd (apply_bc a bs b)) \<longleftrightarrow>
      ax = 1 \<and> k < length bs
      \<and> contains_space (function_space a 1) (space_id (bc_function_space (bs ! k)))
      \<and> 1 < mpi_size (form_mesh a) \<and> bc_method (bs ! k) \<noteq> ''pointwise''"
    by (simp add: apply_bc_gather_iff collect_bcs_gather_iff)
  show "GetBoundaryValues k ax \<in> set (snd (set_bc L bs b)) \<longleftrightarrow>
      ax = 0 \<and> k < length bs
      \<and> contains_space (function_space L 0) (space_id (bc_function_space (bs ! k)))"
    by (simp add: snd_set_bc collect_bcs_get_iff)
  show "Gather k ax \<in> set (snd (set_bc L bs b)) \<longleftrightarrow>
      ax = 0 \<and> k < length bs
      \<and> contains_space (function_space L 0) (space_id (bc_function_space (bs ! k)))
      \<and> 1 < mpi_size (form_mesh L) \<and> bc_method (bs ! k) \<noteq> ''pointwise''"
    by (simp add: snd_set_bc collect_bcs_gather_iff)
qed (rule fst_resolve_bc fst_collect_bcs fst_collect_bcs_matrix)+

text \<open>
  The theorem on two ranks and on one rank, with a topological condition, a pointwise
  condition and a condition on a space that is not contained.
\<close>

theorem gather_witness:
  "snd (assemble_form ex_a_mpi [ex_bc_V, ex_bc_pointwise] Uninitialised) =
     [Init, GetBoundaryValues 0 0, Gather 0 0, GetBoundaryValues 0 1, Gather 0 1,
      GetBoundaryValues 1 0, GetBoundaryValues 1 1, TabulateTensor 0, AddLocal 0,
      Apply, ZeroLocal]
   \<and> snd (apply_bc ex_a_mpi [ex_bc_V, ex_bc_pointwise] (\<lambda>r. 0)) =
     [GetBoundaryValues 0 1, Gather 0 1, GetBoundaryValues 1 1, TabulateTensor 0, AddLocal 0,
      Apply]
   \<and> snd (set_bc ex_L_mpi [ex_bc_V, ex_bc_pointwise, ex_bc_Q] (\<lambda>r. 0)) =
     [GetBoundaryValues 0 0, Gather 0 0, GetBoundaryValues 1 0, SetLocal, Apply]
   \<and> snd (set_bc ex_L [ex_bc_V, ex_bc_pointwise, ex_bc_Q] (\<lambda>r. 0)) =
     [GetBoundaryValues 0 0, GetBoundaryValues 1 0, SetLocal, Apply]
   \<and> fst (collect_bcs 2 ex_V 0 0 [ex_bc_V, ex_bc_Q] Map.empty) = [0 \<mapsto> 5, 1 \<mapsto> 4]
   \<and> fst (collect_bcs 1 ex_V 0 0 [ex_bc_V, ex_bc_Q] Map.empty) = [0 \<mapsto> 5]
   \<and> fst (collect_bcs 2 ex_V 0 0 [ex_bc_pointwise] Map.empty) = [1 \<mapsto> 3]"
  using gather_iff_distributed_and_not_pointwise
    [of 0 0 ex_a_mpi "[ex_bc_V, ex_bc_pointwise]" Uninitialised "\<lambda>r. 0" ex_L_mpi 2 ex_V 0 0 ex_bc_V
        Map.empty Map.empty Map.empty]
  by (simp add: ex_defs assemble_form_def apply_bc_def set_bc_def resolve_bc_def Let_def
        apply_bc_cell_def fun_upd_twist)

section \<open>Vector assembly: reads, order and result\<close>

lemma snd_apply_bc_nonempty: "snd (apply_bc a bs b) \<noteq> []"
  by (simp add: snd_apply_bc)

lemma lift_row_error:
  "snd (snd (lift_row bs i j a_row b)) =
     (if list_all (\<lambda>e. e \<noteq> None) a_row then None else Some NullPointer)"
proof (induction a_row arbitrary: j b)
  case Nil
  then show ?case by simp
next
  case (Cons e rest)
  then show ?case by (cases e) (simp_all add: case_prod_beta)
qed

lemma lift_row_value:
  "list_all (\<lambda>e. e \<noteq> None) a_row \<Longrightarrow>
   fst (lift_row bs i j a_row b) = fold (\<lambda>e v. fst (apply_bc (the e) bs v)) a_row b"
proof (induction a_row arbitrary: j b)
  case Nil
  then show ?case by simp
next
  case (Cons e rest)
  then show ?case by (cases e) (simp_all add: case_prod_beta)
qed

lemma lift_row_tags:
  "fst ` set (fst (snd (lift_row bs i j a_row b))) \<subseteq> range (ApplyBC i)"
proof (induction a_row arbitrary: j b)
  case Nil
  then show ?case by simp
next
  case (Cons e rest)
  show ?case
  proof (cases e)
    case None
    then show ?thesis by simp
  next
    case (Some a)
    have "fst ` set (fst (snd (lift_row bs i (Suc j) rest (fst (apply_bc a bs b)))))
            \<subseteq> range (ApplyBC i)"
      by (rule Cons.IH)
    then show ?thesis
      using Some by (auto simp: case_prod_beta image_Un)
  qed
qed

lemma routines_tagged:
  "calls \<noteq> [] \<Longrightarrow> remdups_adj (map fst (map (Pair r) calls)) = [r]"
proof -
  assume "calls \<noteq> []"
  moreover have "map fst (map (Pair r) calls) = replicate (length calls) r"
    by (induction calls) simp_all
  ultimately show ?thesis by (simp add: remdups_adj_replicate)
qed

lemma routines_append:
  assumes "fst ` set xs \<inter> fst ` set ys = {}"
  shows "remdups_adj (map fst (xs @ ys)) = remdups_adj (map fst xs) @ remdups_adj (map fst ys)"
proof -
  have "map fst xs = [] \<or> map fst ys = [] \<or> last (map fst xs) \<noteq> hd (map fst ys)"
  proof (cases "xs = [] \<or> ys = []")
    case True
    then show ?thesis by auto
  next
    case False
    then have mem: "last (map fst xs) \<in> fst ` set xs" "hd (map fst ys) \<in> fst ` set ys"
      by (auto simp: last_map hd_map)
    have "last (map fst xs) \<noteq> hd (map fst ys)"
    proof
      assume "last (map fst xs) = hd (map fst ys)"
      with mem have "hd (map fst ys) \<in> fst ` set xs \<inter> fst ` set ys" by simp
      with assms show False by simp
    qed
    then show ?thesis by simp
  qed
  then show ?thesis by (simp add: remdups_adj_append')
qed

lemma lift_row_tags_from:
  "fst ` set (fst (snd (lift_row bs i j a_row b))) \<subseteq> ApplyBC i ` {j..<j + length a_row}"
proof (induction a_row arbitrary: j b)
  case Nil
  then show ?case by simp
next
  case (Cons e rest)
  show ?case
  proof (cases e)
    case None
    then show ?thesis by simp
  next
    case (Some a)
    have "fst ` set (fst (snd (lift_row bs i (Suc j) rest (fst (apply_bc a bs b)))))
            \<subseteq> ApplyBC i ` {Suc j..<Suc j + length rest}"
      by (rule Cons.IH)
    moreover have "ApplyBC i ` {Suc j..<Suc j + length rest} \<subseteq> ApplyBC i ` {j..<j + length (e # rest)}"
      by auto
    moreover have "ApplyBC i j \<in> ApplyBC i ` {j..<j + length (e # rest)}"
      by auto
    ultimately show ?thesis
      using Some by (auto simp: case_prod_beta image_Un)
  qed
qed

lemma lift_row_routines:
  "list_all (\<lambda>e. e \<noteq> None) a_row \<Longrightarrow>
   remdups_adj (map fst (fst (snd (lift_row bs i j a_row b)))) =
     map (ApplyBC i) [j..<j + length a_row]"
proof (induction a_row arbitrary: j b)
  case Nil
  then show ?case by simp
next
  case (Cons e rest)
  then obtain a where e: "e = Some a" by auto
  let ?rest = "fst (snd (lift_row bs i (Suc j) rest (fst (apply_bc a bs b))))"
  have disj: "fst ` set (map (Pair (ApplyBC i j)) (snd (apply_bc a bs b))) \<inter> fst ` set ?rest = {}"
    using lift_row_tags_from[of bs i "Suc j" rest "fst (apply_bc a bs b)"] by auto
  have IH: "remdups_adj (map fst ?rest) = map (ApplyBC i) [Suc j..<Suc j + length rest]"
    using Cons.prems by (intro Cons.IH) simp
  have "fst (snd (lift_row bs i j (e # rest) b)) =
          map (Pair (ApplyBC i j)) (snd (apply_bc a bs b)) @ ?rest"
    by (simp add: e case_prod_beta)
  then have "remdups_adj (map fst (fst (snd (lift_row bs i j (e # rest) b)))) =
          [ApplyBC i j] @ map (ApplyBC i) [Suc j..<Suc j + length rest]"
    using routines_append[OF disj] routines_tagged[OF snd_apply_bc_nonempty] IH by simp
  also have "\<dots> = map (ApplyBC i) [j..<j + length (e # rest)]"
    by (subst (2) upt_rec) simp
  finally show ?case .
qed


lemma lift_rows_error:
  "snd (snd (lift_rows tab bs is b)) = None \<longleftrightarrow>
     (\<forall>i \<in> set is. i < length tab \<and> list_all (\<lambda>e. e \<noteq> None) (tab ! i))"
proof (induction "is" arbitrary: b)
  case Nil
  then show ?case by simp
next
  case (Cons i rest)
  show ?case
  proof (cases "i < length tab")
    case False
    then show ?thesis by simp
  next
    case True
    show ?thesis
    proof (cases "list_all (\<lambda>e. e \<noteq> None) (tab ! i)")
      case False
      then have "snd (snd (lift_row bs i 0 (tab ! i) b)) = Some NullPointer"
        by (simp add: lift_row_error)
      then show ?thesis using True False by (simp add: case_prod_beta)
    next
      case present: True
      then have "snd (snd (lift_row bs i 0 (tab ! i) b)) = None"
        by (simp add: lift_row_error)
      then show ?thesis using True present by (simp add: case_prod_beta Cons.IH)
    qed
  qed
qed

lemma lift_rows_error_kind:
  "snd (snd (lift_rows tab bs is b)) \<in> {None, Some OutOfRange, Some NullPointer}"
proof (induction "is" arbitrary: b)
  case Nil
  then show ?case by simp
next
  case (Cons i rest)
  show ?case
  proof (cases "snd (snd (lift_row bs i 0 (tab ! i) b))")
    case None
    then show ?thesis using Cons.IH by (simp add: case_prod_beta)
  next
    case (Some e)
    then have "e = NullPointer" by (simp add: lift_row_error split: if_splits)
    then show ?thesis using Some by (simp add: case_prod_beta)
  qed
qed

lemma lift_rows_value:
  "\<forall>i \<in> set is. i < length tab \<and> list_all (\<lambda>e. e \<noteq> None) (tab ! i) \<Longrightarrow>
   fst (lift_rows tab bs is b) =
     fold (\<lambda>i. fold (\<lambda>e v. fst (apply_bc (the e) bs v)) (tab ! i)) is b"
proof (induction "is" arbitrary: b)
  case Nil
  then show ?case by simp
next
  case (Cons i rest)
  then have "snd (snd (lift_row bs i 0 (tab ! i) b)) = None"
    by (simp add: lift_row_error)
  then show ?case
    using Cons by (simp add: case_prod_beta lift_row_value)
qed

lemma lift_rows_tags:
  "fst ` set (fst (snd (lift_rows tab bs is b))) \<subseteq> (\<Union>i \<in> set is. range (ApplyBC i))"
proof (induction "is" arbitrary: b)
  case Nil
  then show ?case by simp
next
  case (Cons i rest)
  have row: "fst ` set (fst (snd (lift_row bs i 0 (tab ! i) b))) \<subseteq> range (ApplyBC i)"
    by (rule lift_row_tags)
  have rest: "fst ` set (fst (snd (lift_rows tab bs rest (fst (lift_row bs i 0 (tab ! i) b)))))
                \<subseteq> (\<Union>i \<in> set rest. range (ApplyBC i))"
    by (rule Cons.IH)
  show ?case
  proof (cases "i < length tab")
    case False
    then show ?thesis by simp
  next
    case True
    show ?thesis
    proof (cases "snd (snd (lift_row bs i 0 (tab ! i) b))")
      case None
      then show ?thesis
        using True row rest by (simp add: case_prod_beta image_Un) blast
    next
      case (Some e)
      then show ?thesis
        using True row by (simp add: case_prod_beta) blast
    qed
  qed
qed

lemma lift_rows_routines:
  assumes "\<forall>i \<in> set is. i < length tab \<and> list_all (\<lambda>e. e \<noteq> None) (tab ! i)"
    and "distinct is"
  shows "remdups_adj (map fst (fst (snd (lift_rows tab bs is b)))) =
           concat (map (\<lambda>i. map (ApplyBC i) [0..<length (tab ! i)]) is)"
  using assms
proof (induction "is" arbitrary: b)
  case Nil
  then show ?case by simp
next
  case (Cons i rest)
  let ?row = "lift_row bs i 0 (tab ! i) b"
  let ?rest = "lift_rows tab bs rest (fst ?row)"
  have ok: "snd (snd ?row) = None" "i < length tab"
    using Cons.prems by (simp_all add: lift_row_error)
  have evs: "fst (snd (lift_rows tab bs (i # rest) b)) = fst (snd ?row) @ fst (snd ?rest)"
    using ok by (simp add: case_prod_beta)
  have tags_row: "fst ` set (fst (snd ?row)) \<subseteq> range (ApplyBC i)"
    by (rule lift_row_tags)
  have tags_rest: "fst ` set (fst (snd ?rest)) \<subseteq> (\<Union>k \<in> set rest. range (ApplyBC k))"
    by (rule lift_rows_tags)
  have fresh: "i \<notin> set rest" using Cons.prems by simp
  have disj: "fst ` set (fst (snd ?row)) \<inter> fst ` set (fst (snd ?rest)) = {}"
  proof (rule equals0I)
    fix r
    assume r: "r \<in> fst ` set (fst (snd ?row)) \<inter> fst ` set (fst (snd ?rest))"
    from r tags_row obtain j where "r = ApplyBC i j" by blast
    moreover from r tags_rest obtain k j' where "k \<in> set rest" "r = ApplyBC k j'" by blast
    ultimately show False using fresh by simp
  qed
  have "remdups_adj (map fst (fst (snd ?row))) = map (ApplyBC i) [0..<length (tab ! i)]"
    using Cons.prems lift_row_routines[of "tab ! i" bs i 0 b] by simp
  moreover have "remdups_adj (map fst (fst (snd ?rest))) =
                   concat (map (\<lambda>i. map (ApplyBC i) [0..<length (tab ! i)]) rest)"
    using Cons.prems by (intro Cons.IH) simp_all
  ultimately show ?case
    unfolding evs routines_append[OF disj] by simp
qed

lemma snd_assemble_linear_nonempty: "snd (assemble_linear L b) \<noteq> []"
  by (simp add: assemble_linear_def case_prod_beta)

lemma snd_set_bc_nonempty: "snd (set_bc L bs b) \<noteq> []"
  by (simp add: snd_set_bc)

lemma rows_present_iff:
  "(\<forall>i \<in> set [0..<n]. i < length tab \<and> list_all (\<lambda>e. e \<noteq> None) (tab ! i)) \<longleftrightarrow>
     (n = 0 \<or> n \<le> length tab) \<and> (\<forall>i < n. \<forall>j < length (tab ! i). tab ! i ! j \<noteq> None)"
proof -
  have split: "(\<forall>i \<in> set [0..<n]. i < length tab \<and> list_all (\<lambda>e. e \<noteq> None) (tab ! i)) \<longleftrightarrow>
          (\<forall>i < n. i < length tab) \<and> (\<forall>i < n. \<forall>j < length (tab ! i). tab ! i ! j \<noteq> None)"
    by (auto simp: list_all_length)
  have "(\<forall>i < n. i < length tab) \<longleftrightarrow> n = 0 \<or> n \<le> length tab"
  proof (cases n)
    case 0
    then show ?thesis by simp
  next
    case (Suc m)
    show ?thesis
    proof
      assume "\<forall>i < n. i < length tab"
      then have "m < length tab" using Suc by simp
      then show "n = 0 \<or> n \<le> length tab" using Suc by simp
    next
      assume "n = 0 \<or> n \<le> length tab"
      then show "\<forall>i < n. i < length tab" using Suc by simp
    qed
  qed
  with split show ?thesis by simp
qed

lemma assemble_vector_Cons:
  assumes "forms_l asm = L0 # ls"
  shows "assemble_vector asm b =
     (let b1 = fst (assemble_linear L0 b);
          r = lift_rows (forms_a asm) (bcs asm) [0..<length (forms_l asm)] b1;
          evs = map (Pair AssembleLinear) (snd (assemble_linear L0 b)) @ fst (snd r)
      in case snd (snd r) of
           Some e \<Rightarrow> (VecEntries (fst r), evs, Some e)
         | None \<Rightarrow> (VecEntries (fst (set_bc L0 (bcs asm) (fst r))),
                     evs @ map (Pair SetBC) (snd (set_bc L0 (bcs asm) (fst r))), None))"
  using assms by (simp add: assemble_vector_def Let_def case_prod_beta split: option.splits)

text \<open>
  C9. \<^verbatim>\<open>assemble(b)\<close> reads \<^verbatim>\<open>_l[0]\<close>, then \<^verbatim>\<open>_a[i]\<close> for every index \<open>i\<close> of
  \<^verbatim>\<open>_l\<close>, and dereferences every entry of those rows without a test. All these reads
  are in range and non-null, so that the call returns, exactly when the list of linear
  forms is not empty, it is no longer than the table has rows, and every entry of the
  rows below its length is present; otherwise the call ends in an out-of-range read or
  a null dereference.
\<close>

theorem vector_assembly_precondition:
  "(snd (snd (assemble_vector asm b)) = None \<longleftrightarrow>
      forms_l asm \<noteq> [] \<and> length (forms_l asm) \<le> length (forms_a asm)
      \<and> (\<forall>i < length (forms_l asm). \<forall>j < length (forms_a asm ! i). forms_a asm ! i ! j \<noteq> None))
   \<and> snd (snd (assemble_vector asm b)) \<in> {None, Some OutOfRange, Some NullPointer}"
proof (cases "forms_l asm")
  case Nil
  then show ?thesis by (simp add: assemble_vector_def)
next
  case (Cons L0 ls)
  let ?r = "lift_rows (forms_a asm) (bcs asm) [0..<length (forms_l asm)]
              (fst (assemble_linear L0 b))"
  have err: "snd (snd (assemble_vector asm b)) = snd (snd ?r)"
    by (simp add: assemble_vector_Cons[OF Cons] Let_def split: option.splits)
  have "snd (snd ?r) = None \<longleftrightarrow>
          length (forms_l asm) \<le> length (forms_a asm)
          \<and> (\<forall>i < length (forms_l asm). \<forall>j < length (forms_a asm ! i). forms_a asm ! i ! j \<noteq> None)"
    unfolding lift_rows_error rows_present_iff using Cons by simp
  moreover have "snd (snd ?r) \<in> {None, Some OutOfRange, Some NullPointer}"
    by (rule lift_rows_error_kind)
  ultimately show ?thesis
    unfolding err using Cons by simp
qed

text \<open>
  C3, as amended. When the reads of \<^verbatim>\<open>assemble(b)\<close> are all defined, the routines
  that make calls are, in order: the cell-loop assembly of the first linear form; the
  lifting correction for every row \<open>i\<close> below the number of linear forms and every
  column \<open>j\<close> of that row of the table, each with the full list of conditions of the
  assembler against the form at \<open>(i, j)\<close>; and last \<^verbatim>\<open>set_bc\<close> for the first linear
  form. The vector is the composition of these steps in that order.
\<close>

theorem vector_assembly_order:
  assumes nonempty: "forms_l asm \<noteq> []"
    and rows: "length (forms_l asm) \<le> length (forms_a asm)"
    and present: "\<forall>i < length (forms_l asm). \<forall>j < length (forms_a asm ! i).
                    forms_a asm ! i ! j \<noteq> None"
  shows "remdups_adj (map fst (fst (snd (assemble_vector asm b)))) =
           AssembleLinear
           # concat (map (\<lambda>i. map (ApplyBC i) [0..<length (forms_a asm ! i)])
                       [0..<length (forms_l asm)])
           @ [SetBC]
         \<and> fst (assemble_vector asm b) =
             VecEntries
               (fst (set_bc (hd (forms_l asm)) (bcs asm)
                  (fold (\<lambda>i. fold (\<lambda>e v. fst (apply_bc (the e) (bcs asm) v)) (forms_a asm ! i))
                     [0..<length (forms_l asm)]
                     (fst (assemble_linear (hd (forms_l asm)) b)))))
         \<and> snd (snd (assemble_vector asm b)) = None"
proof -
  obtain L0 ls where l: "forms_l asm = L0 # ls"
    using nonempty by (cases "forms_l asm") auto
  let ?b1 = "fst (assemble_linear L0 b)"
  let ?r = "lift_rows (forms_a asm) (bcs asm) [0..<length (forms_l asm)] ?b1"
  let ?s = "set_bc L0 (bcs asm) (fst ?r)"
  have all: "\<forall>i \<in> set [0..<length (forms_l asm)].
               i < length (forms_a asm) \<and> list_all (\<lambda>e. e \<noteq> None) (forms_a asm ! i)"
    unfolding rows_present_iff using rows present by simp
  have ok: "snd (snd ?r) = None"
    unfolding lift_rows_error using all .
  have res: "assemble_vector asm b =
               (VecEntries (fst ?s),
                (map (Pair AssembleLinear) (snd (assemble_linear L0 b)) @ fst (snd ?r))
                  @ map (Pair SetBC) (snd ?s), None)"
    by (simp add: assemble_vector_Cons[OF l] Let_def ok)
  have val: "fst ?r = fold (\<lambda>i. fold (\<lambda>e v. fst (apply_bc (the e) (bcs asm) v)) (forms_a asm ! i))
                        [0..<length (forms_l asm)] ?b1"
    using all by (rule lift_rows_value)
  have tags: "fst ` set (fst (snd ?r)) \<subseteq> (\<Union>i \<in> set [0..<length (forms_l asm)]. range (ApplyBC i))"
    by (rule lift_rows_tags)
  have d1: "fst ` set (map (Pair AssembleLinear) (snd (assemble_linear L0 b)))
              \<inter> fst ` set (fst (snd ?r)) = {}"
  proof (rule equals0I)
    fix r
    assume "r \<in> fst ` set (map (Pair AssembleLinear) (snd (assemble_linear L0 b)))
              \<inter> fst ` set (fst (snd ?r))"
    then have "r = AssembleLinear" "r \<in> (\<Union>i \<in> set [0..<length (forms_l asm)]. range (ApplyBC i))"
      using tags by auto
    then show False by auto
  qed
  have d2: "fst ` set (map (Pair AssembleLinear) (snd (assemble_linear L0 b)) @ fst (snd ?r))
              \<inter> fst ` set (map (Pair SetBC) (snd ?s)) = {}"
  proof (rule equals0I)
    fix r
    assume "r \<in> fst ` set (map (Pair AssembleLinear) (snd (assemble_linear L0 b)) @ fst (snd ?r))
              \<inter> fst ` set (map (Pair SetBC) (snd ?s))"
    then have "r = SetBC"
      "r = AssembleLinear \<or> r \<in> (\<Union>i \<in> set [0..<length (forms_l asm)]. range (ApplyBC i))"
      using tags by auto
    then show False by auto
  qed
  have "remdups_adj (map fst (fst (snd (assemble_vector asm b)))) =
          [AssembleLinear]
          @ concat (map (\<lambda>i. map (ApplyBC i) [0..<length (forms_a asm ! i)])
                      [0..<length (forms_l asm)])
          @ [SetBC]"
    unfolding res fst_conv snd_conv routines_append[OF d2] routines_append[OF d1]
      routines_tagged[OF snd_assemble_linear_nonempty] routines_tagged[OF snd_set_bc_nonempty]
      lift_rows_routines[OF all distinct_upt]
    by simp
  then show ?thesis
    using val by (simp add: res l)
qed

lemmas eval_vector =
  assemble_vector_def assemble_linear_def apply_bc_def set_bc_def resolve_bc_def
  apply_bc_cell_def assemble_cell_vector_def tabulate_matrix_def tabulate_vector_def
  lift_columns_def vec_add_local_def vec_set_local_def init_vector_def zero_bc_rows_eq Let_def

lemmas eval_matrix =
  assemble_matrix_def assemble_form_def resolve_bc_def assemble_cell_def tabulate_matrix_def
  zero_bc_rows_eq zero_bc_cols_eq mat_add_local_def add_entry_def init_matrix_def
  zero_local_def get_sub_mat_def

text \<open>
  The theorem at an assembler that satisfies the condition and at one with an absent
  entry in row 0, which the matrix assembly skips and the vector assembly dereferences;
  two linear forms over a table of one row read beyond the table.
\<close>

theorem vector_assembly_precondition_witness:
  "snd (snd (assemble_vector ex_asm_single EmptyVector)) = None
   \<and> snd (snd (assemble_vector ex_asm_absent EmptyVector)) = Some NullPointer
   \<and> snd (snd (assemble_matrix ex_asm_absent (Plain Uninitialised))) = None
   \<and> snd (snd (assemble_vector ex_asm_two_linear EmptyVector)) = Some OutOfRange"
  using vector_assembly_precondition [of ex_asm_single EmptyVector]
        vector_assembly_precondition [of ex_asm_absent EmptyVector]
  by (simp add: ex_defs eval_vector eval_matrix)

text \<open>The theorem at a table of one row and two columns.\<close>

theorem vector_assembly_order_witness:
  "forms_l ex_asm_block \<noteq> []
   \<and> length (forms_l ex_asm_block) \<le> length (forms_a ex_asm_block)
   \<and> remdups_adj (map fst (fst (snd (assemble_vector ex_asm_block EmptyVector)))) =
       [AssembleLinear, ApplyBC 0 0, ApplyBC 0 1, SetBC]
   \<and> (case fst (assemble_vector ex_asm_block EmptyVector) of
         EmptyVector \<Rightarrow> False
       | VecEntries v \<Rightarrow> v 0 = 5 \<and> v 1 = - 24 \<and> v 2 = 0)"
proof -
  have h1: "forms_l ex_asm_block \<noteq> []"
    and h2: "length (forms_l ex_asm_block) \<le> length (forms_a ex_asm_block)"
    by (simp_all add: ex_defs)
  have h3: "\<forall>i < length (forms_l ex_asm_block). \<forall>j < length (forms_a ex_asm_block ! i).
              forms_a ex_asm_block ! i ! j \<noteq> None"
    by (simp add: ex_defs nth_Cons' )
  show ?thesis
    using h1 h2 vector_assembly_order [OF h1 h2 h3, of EmptyVector]
    by (simp add: ex_defs eval_vector)
qed

text \<open>
  C3 as stated fails: with one linear form and a table of two rows, the call returns
  and the form in row 1 is never lifted.
\<close>

theorem vector_assembly_skips_rows_without_linear_form:
  "snd (snd (assemble_vector ex_asm_two_rows EmptyVector)) = None
   \<and> length (forms_a ex_asm_two_rows) = 2
   \<and> forms_a ex_asm_two_rows ! 1 ! 0 \<noteq> None
   \<and> remdups_adj (map fst (fst (snd (assemble_vector ex_asm_two_rows EmptyVector)))) =
       [AssembleLinear, ApplyBC 0 0, SetBC]"
  by (simp add: ex_defs eval_vector)

text \<open>
  C10 at an empty matrix, where both calls run, and at an initialised matrix, where
  the first fails and the vector is untouched.
\<close>

theorem assemble_system_witness:
  "snd (snd (assemble_matrix ex_asm_single (Plain Uninitialised))) = None
   \<and> snd (fst (assemble_system ex_asm_single (Plain Uninitialised) EmptyVector)) =
       fst (assemble_vector ex_asm_single EmptyVector)
   \<and> snd (snd (assemble_system ex_asm_single (Plain Uninitialised) EmptyVector)) = None
   \<and> snd (snd (assemble_matrix ex_asm_single (Plain (Entries (\<lambda>r c. 0))))) \<noteq> None
   \<and> snd (fst (assemble_system ex_asm_single (Plain (Entries (\<lambda>r c. 0))) EmptyVector)) =
       EmptyVector
   \<and> snd (assemble_system ex_asm_single (Plain (Entries (\<lambda>r c. 0))) EmptyVector) =
       ([], Some NotImplemented)"
proof -
  have ok: "snd (snd (assemble_matrix ex_asm_single (Plain Uninitialised))) = None"
    by (simp add: ex_defs assemble_matrix_def Let_def case_prod_beta)
  have ko: "assemble_matrix ex_asm_single (Plain (Entries (\<lambda>r c. 0))) =
              (Plain (Entries (\<lambda>r c. 0)), [], Some NotImplemented)"
    by (simp add: ex_defs assemble_matrix_def Let_def)
  have vec: "snd (snd (assemble_vector ex_asm_single EmptyVector)) = None"
    by (simp add: ex_defs eval_vector)
  show ?thesis
    using assemble_system_is_sequential_composition
            [of ex_asm_single "Plain Uninitialised" EmptyVector]
          assemble_system_is_sequential_composition
            [of ex_asm_single "Plain (Entries (\<lambda>r c. 0))" EmptyVector]
    by (simp add: ok ko vec)
qed

section \<open>Block assembly: when the matrices are finalized\<close>

lemma init_sub_row_events:
  "e \<in> set (snd (init_sub_row i j a_row)) \<Longrightarrow> \<exists>p q. e = (AssembleMatrix, InitSubMat p q)"
proof (induction a_row arbitrary: j)
  case Nil
  then show ?case by simp
next
  case (Cons x rest)
  then show ?case by (cases x) (auto simp: case_prod_beta)
qed

lemma init_sub_mats_events:
  "e \<in> set (snd (init_sub_mats i tab)) \<Longrightarrow> \<exists>p q. e = (AssembleMatrix, InitSubMat p q)"
proof (induction tab arbitrary: i)
  case Nil
  then show ?case by simp
next
  case (Cons a_row rest)
  from Cons.prems show ?case
    by (auto simp: case_prod_beta dest: init_sub_row_events Cons.IH)
qed

lemma assemble_block_row_tags:
  "fst ` set (fst (snd (assemble_block_row bs nr nc i j a_row mats))) \<subseteq> range (AssembleForm i)"
proof (induction a_row arbitrary: j mats)
  case Nil
  then show ?case by simp
next
  case (Cons x rest)
  show ?case
  proof (cases x)
    case None
    then show ?thesis using Cons.IH by simp
  next
    case (Some a)
    show ?thesis
    proof (cases "get_sub_mat nr nc mats i j")
      case (Inl e)
      then show ?thesis using Some by simp
    next
      case (Inr sub)
      have "fst ` set (fst (snd (assemble_block_row bs nr nc i (Suc j) rest
               (mats[i * nc + j := Some (Entries (fst (assemble_form a bs sub)))]))))
            \<subseteq> range (AssembleForm i)"
        by (rule Cons.IH)
      then show ?thesis
        using Some Inr by (auto simp: case_prod_beta image_Un)
    qed
  qed
qed

lemma assemble_blocks_tags:
  "fst ` set (fst (snd (assemble_blocks bs nr nc i tab mats))) \<subseteq> range (\<lambda>(p, q). AssembleForm p q)"
proof (induction tab arbitrary: i mats)
  case Nil
  then show ?case by simp
next
  case (Cons a_row rest)
  let ?row = "assemble_block_row bs nr nc i 0 a_row mats"
  have row: "fst ` set (fst (snd ?row)) \<subseteq> range (\<lambda>(p, q). AssembleForm p q)"
  proof
    fix r
    assume "r \<in> fst ` set (fst (snd ?row))"
    then obtain q where "r = AssembleForm i q"
      using assemble_block_row_tags[of bs nr nc i 0 a_row mats] by blast
    then show "r \<in> range (\<lambda>(p, q). AssembleForm p q)"
      by (auto intro: range_eqI[of _ _ "(i, q)"])
  qed
  have rest: "fst ` set (fst (snd (assemble_blocks bs nr nc (Suc i) rest (fst ?row))))
                \<subseteq> range (\<lambda>(p, q). AssembleForm p q)"
    by (rule Cons.IH)
  show ?case
  proof (cases "snd (snd ?row)")
    case None
    then show ?thesis using row rest by (simp add: case_prod_beta image_Un)
  next
    case (Some e)
    then show ?thesis using row by (simp add: case_prod_beta)
  qed
qed

lemma assemble_form_finalizes:
  "Apply \<in> set (snd (assemble_form a bs sub))"
  "c \<in> set (mesh_cells (form_mesh a)) \<Longrightarrow> AddLocal c \<in> set (snd (assemble_form a bs sub))"
  by (auto simp: snd_assemble_form)

lemma assemble_block_row_present:
  assumes "snd (snd (assemble_block_row bs nr nc i j a_row mats)) = None"
    and "k < length a_row" and "a_row ! k = Some a"
  shows "(AssembleForm i (j + k), Apply) \<in> set (fst (snd (assemble_block_row bs nr nc i j a_row mats)))
         \<and> (\<forall>c \<in> set (mesh_cells (form_mesh a)).
               (AssembleForm i (j + k), AddLocal c)
                 \<in> set (fst (snd (assemble_block_row bs nr nc i j a_row mats))))"
  using assms
proof (induction a_row arbitrary: j k mats)
  case Nil
  then show ?case by simp
next
  case (Cons x rest)
  show ?case
  proof (cases x)
    case None
    with Cons.prems obtain k' where k: "k = Suc k'" by (cases k) auto
    have "(AssembleForm i (Suc j + k'), Apply)
            \<in> set (fst (snd (assemble_block_row bs nr nc i (Suc j) rest mats)))
          \<and> (\<forall>c \<in> set (mesh_cells (form_mesh a)).
               (AssembleForm i (Suc j + k'), AddLocal c)
                 \<in> set (fst (snd (assemble_block_row bs nr nc i (Suc j) rest mats))))"
      using Cons.prems None k by (intro Cons.IH) simp_all
    then show ?thesis using None k by simp
  next
    case (Some a')
    from Cons.prems Some obtain sub where sub: "get_sub_mat nr nc mats i j = Inr sub"
      by (cases "get_sub_mat nr nc mats i j") auto
    let ?mats = "mats[i * nc + j := Some (Entries (fst (assemble_form a' bs sub)))]"
    have evs: "fst (snd (assemble_block_row bs nr nc i j (x # rest) mats)) =
                 map (Pair (AssembleForm i j)) (snd (assemble_form a' bs sub))
                 @ fst (snd (assemble_block_row bs nr nc i (Suc j) rest ?mats))"
      and err: "snd (snd (assemble_block_row bs nr nc i j (x # rest) mats)) =
                  snd (snd (assemble_block_row bs nr nc i (Suc j) rest ?mats))"
      using Some sub by (simp_all add: case_prod_beta)
    show ?thesis
    proof (cases k)
      case 0
      then have "a' = a" using Cons.prems Some by simp
      then show ?thesis
        unfolding evs using 0 assemble_form_finalizes[where a=a and bs=bs and sub=sub] by auto
    next
      case (Suc k')
      have "(AssembleForm i (Suc j + k'), Apply)
              \<in> set (fst (snd (assemble_block_row bs nr nc i (Suc j) rest ?mats)))
            \<and> (\<forall>c \<in> set (mesh_cells (form_mesh a)).
                 (AssembleForm i (Suc j + k'), AddLocal c)
                   \<in> set (fst (snd (assemble_block_row bs nr nc i (Suc j) rest ?mats))))"
        using Cons.prems Suc err by (intro Cons.IH) simp_all
      then show ?thesis unfolding evs using Suc by simp
    qed
  qed
qed

lemma assemble_blocks_present:
  assumes "snd (snd (assemble_blocks bs nr nc i tab mats)) = None"
    and "p < length tab" and "q < length (tab ! p)" and "tab ! p ! q = Some a"
  shows "(AssembleForm (i + p) q, Apply) \<in> set (fst (snd (assemble_blocks bs nr nc i tab mats)))
         \<and> (\<forall>c \<in> set (mesh_cells (form_mesh a)).
               (AssembleForm (i + p) q, AddLocal c)
                 \<in> set (fst (snd (assemble_blocks bs nr nc i tab mats))))"
  using assms
proof (induction tab arbitrary: i p mats)
  case Nil
  then show ?case by simp
next
  case (Cons a_row rest)
  let ?row = "assemble_block_row bs nr nc i 0 a_row mats"
  let ?rest = "assemble_blocks bs nr nc (Suc i) rest (fst ?row)"
  have ok_row: "snd (snd ?row) = None"
    using Cons.prems(1) by (cases "snd (snd ?row)") (simp_all add: case_prod_beta)
  have evs: "fst (snd (assemble_blocks bs nr nc i (a_row # rest) mats)) =
               fst (snd ?row) @ fst (snd ?rest)"
    and err: "snd (snd (assemble_blocks bs nr nc i (a_row # rest) mats)) = snd (snd ?rest)"
    using ok_row by (simp_all add: case_prod_beta)
  show ?case
  proof (cases p)
    case 0
    then show ?thesis
      unfolding evs
      using assemble_block_row_present[OF ok_row, of q a] Cons.prems by simp
  next
    case (Suc p')
    have "(AssembleForm (Suc i + p') q, Apply) \<in> set (fst (snd ?rest))
          \<and> (\<forall>c \<in> set (mesh_cells (form_mesh a)).
                (AssembleForm (Suc i + p') q, AddLocal c) \<in> set (fst (snd ?rest)))"
      using Cons.prems Suc err by (intro Cons.IH) simp_all
    then show ?thesis unfolding evs using Suc by simp
  qed
qed

lemma assemble_matrix_block:
  assumes tab: "forms_a asm = row0 # rest"
    and block: "1 < length (forms_a asm) \<or> 1 < length row0"
    and ok: "snd (snd (assemble_matrix asm A)) = None"
  shows "snd (snd (assemble_blocks (bcs asm) (length (forms_a asm)) (length row0) 0 (forms_a asm)
                 (take (length (forms_a asm) * length row0)
                    (fst (init_sub_mats 0 (forms_a asm)))))) = None
         \<and> fst (snd (assemble_matrix asm A)) =
             (snd (init_sub_mats 0 (forms_a asm))
              @ (AssembleMatrix, NestSetSubMats (length (forms_a asm)) (length row0))
              # fst (snd (assemble_blocks (bcs asm) (length (forms_a asm)) (length row0) 0
                           (forms_a asm)
                           (take (length (forms_a asm) * length row0)
                              (fst (init_sub_mats 0 (forms_a asm)))))))
             @ [(AssembleMatrix, Apply)]"
proof -
  let ?nr = "length (forms_a asm)" and ?nc = "length row0"
  let ?init = "init_sub_mats 0 (forms_a asm)"
  let ?R = "assemble_blocks (bcs asm) ?nr ?nc 0 (forms_a asm) (take (?nr * ?nc) (fst ?init))"
  have empty: "empty_matrix A"
    using ok tab by (cases "empty_matrix A") (simp_all add: assemble_matrix_def Let_def)
  have enough: "\<not> length (fst ?init) < ?nr * ?nc"
    using ok tab block empty
    by (cases "length (fst ?init) < ?nr * ?nc")
       (simp_all add: assemble_matrix_def Let_def case_prod_beta)
  have unfold: "assemble_matrix asm A =
      (case snd (snd ?R) of
         Some e \<Rightarrow> (MatNest ?nr ?nc (fst ?R),
                     snd ?init @ (AssembleMatrix, NestSetSubMats ?nr ?nc) # fst (snd ?R), Some e)
       | None \<Rightarrow> (MatNest ?nr ?nc (fst ?R),
                   (snd ?init @ (AssembleMatrix, NestSetSubMats ?nr ?nc) # fst (snd ?R))
                     @ [(AssembleMatrix, Apply)], None))"
    using tab block empty enough
    by (simp add: assemble_matrix_def Let_def case_prod_beta split: option.splits)
  have okR: "snd (snd ?R) = None"
    using ok unfolding unfold by (cases "snd (snd ?R)") simp_all
  then show ?thesis unfolding unfold by simp
qed

text \<open>
  C2, for a call that returns. When \<^verbatim>\<open>assemble(A)\<close> with a block table returns, the
  finalize of the full matrix (line 129) is the last call and occurs nowhere before: it
  happens exactly once, never between sub-blocks, and after every present sub-block has
  been filled by its cell loop and the single-form assembly of that sub-block (which
  ends by finalizing the sub-matrix it was given, line 280) has completed.
\<close>

theorem nest_finalize_once_after_blocks:
  assumes block: "1 < length (forms_a asm) \<or> 1 < length (hd (forms_a asm))"
    and ok: "snd (snd (assemble_matrix asm A)) = None"
  shows "\<exists>pre. fst (snd (assemble_matrix asm A)) = pre @ [(AssembleMatrix, Apply)]
           \<and> (AssembleMatrix, Apply) \<notin> set pre
           \<and> (\<forall>i j a. i < length (forms_a asm) \<and> j < length (forms_a asm ! i)
                       \<and> forms_a asm ! i ! j = Some a \<longrightarrow>
                 (AssembleForm i j, Apply) \<in> set pre
                 \<and> (\<forall>c \<in> set (mesh_cells (form_mesh a)).
                       (AssembleForm i j, AddLocal c) \<in> set pre))"
proof -
  obtain row0 rest where tab: "forms_a asm = row0 # rest"
    using ok by (cases "forms_a asm") (simp_all add: assemble_matrix_def)
  let ?nr = "length (forms_a asm)" and ?nc = "length row0"
  let ?init = "init_sub_mats 0 (forms_a asm)"
  let ?R = "assemble_blocks (bcs asm) ?nr ?nc 0 (forms_a asm) (take (?nr * ?nc) (fst ?init))"
  let ?pre = "snd ?init @ (AssembleMatrix, NestSetSubMats ?nr ?nc) # fst (snd ?R)"
  have block': "1 < length (forms_a asm) \<or> 1 < length row0"
    using block tab by simp
  note blk = assemble_matrix_block[OF tab block' ok]
  have log: "fst (snd (assemble_matrix asm A)) = ?pre @ [(AssembleMatrix, Apply)]"
    using blk by simp
  have okR: "snd (snd ?R) = None" using blk by simp
  have "(AssembleMatrix, Apply) \<notin> set (snd ?init)"
    using init_sub_mats_events[of "(AssembleMatrix, Apply)" 0 "forms_a asm"] by auto
  moreover have "(AssembleMatrix, Apply) \<notin> set (fst (snd ?R))"
  proof
    assume "(AssembleMatrix, Apply) \<in> set (fst (snd ?R))"
    then have "AssembleMatrix \<in> fst ` set (fst (snd ?R))" by force
    then have "AssembleMatrix \<in> range (\<lambda>(p, q). AssembleForm p q)"
      using assemble_blocks_tags by blast
    then show False by auto
  qed
  ultimately have once: "(AssembleMatrix, Apply) \<notin> set ?pre" by simp
  have filled: "(AssembleForm i j, Apply) \<in> set ?pre
                \<and> (\<forall>c \<in> set (mesh_cells (form_mesh a)). (AssembleForm i j, AddLocal c) \<in> set ?pre)"
    if "i < length (forms_a asm) \<and> j < length (forms_a asm ! i) \<and> forms_a asm ! i ! j = Some a"
    for i j a
    using assemble_blocks_present[OF okR, of i j a] that by simp
  show ?thesis
    using log once filled by (intro exI[of _ ?pre]) blast
qed

text \<open>
  The restriction to calls that return is needed: a second call with the same block
  table, on the matrix that the first call returned, fails with \<open>NotImplemented\<close>
  and makes no call at all, so the full matrix is finalized no time rather than once.
\<close>

theorem second_block_call_makes_no_finalize:
  "length (hd (forms_a ex_asm_block)) = 2
   \<and> snd (snd (assemble_matrix ex_asm_block (Plain Uninitialised))) = None
   \<and> assemble_matrix ex_asm_block (fst (assemble_matrix ex_asm_block (Plain Uninitialised))) =
       (fst (assemble_matrix ex_asm_block (Plain Uninitialised)), [], Some NotImplemented)"
proof -
  have cols: "length (hd (forms_a ex_asm_block)) = 2"
    by (simp add: ex_defs)
  have ok: "snd (snd (assemble_matrix ex_asm_block (Plain Uninitialised))) = None"
    by (simp add: ex_defs assemble_matrix_def get_sub_mat_def Let_def case_prod_beta)
  define A1 where "A1 = fst (assemble_matrix ex_asm_block (Plain Uninitialised))"
  have "\<not> empty_matrix A1"
    unfolding A1_def
    by (simp add: ex_defs assemble_matrix_def get_sub_mat_def Let_def case_prod_beta)
  then have "assemble_matrix ex_asm_block A1 = (A1, [], Some NotImplemented)"
    by (simp add: assemble_matrix_def ex_asm_block_def Let_def)
  with cols ok show ?thesis unfolding A1_def by simp
qed

text \<open>The theorem at a table of one row and two columns, on an empty matrix.\<close>

theorem nest_finalize_witness:
  "(1 < length (forms_a ex_asm_block) \<or> 1 < length (hd (forms_a ex_asm_block)))
   \<and> snd (snd (assemble_matrix ex_asm_block (Plain Uninitialised))) = None
   \<and> last (fst (snd (assemble_matrix ex_asm_block (Plain Uninitialised)))) = (AssembleMatrix, Apply)
   \<and> (AssembleMatrix, Apply)
        \<notin> set (butlast (fst (snd (assemble_matrix ex_asm_block (Plain Uninitialised)))))
   \<and> (AssembleForm 0 1, AddLocal 0)
        \<in> set (butlast (fst (snd (assemble_matrix ex_asm_block (Plain Uninitialised)))))"
proof -
  have block: "1 < length (forms_a ex_asm_block) \<or> 1 < length (hd (forms_a ex_asm_block))"
    by (simp add: ex_defs)
  have ok: "snd (snd (assemble_matrix ex_asm_block (Plain Uninitialised))) = None"
    by (simp add: ex_defs assemble_matrix_def get_sub_mat_def Let_def case_prod_beta)
  have present: "0 < length (forms_a ex_asm_block) \<and> 1 < length (forms_a ex_asm_block ! 0)
                 \<and> forms_a ex_asm_block ! 0 ! 1 = Some ex_a_VQ"
    by (simp add: ex_asm_block_def)
  have cell: "0 \<in> set (mesh_cells (form_mesh ex_a_VQ))"
    by (simp add: ex_defs)
  from nest_finalize_once_after_blocks [OF block ok]
  obtain pre where pre:
    "fst (snd (assemble_matrix ex_asm_block (Plain Uninitialised))) = pre @ [(AssembleMatrix, Apply)]"
    "(AssembleMatrix, Apply) \<notin> set pre"
    "\<forall>i j a. i < length (forms_a ex_asm_block) \<and> j < length (forms_a ex_asm_block ! i)
        \<and> forms_a ex_asm_block ! i ! j = Some a \<longrightarrow>
        (AssembleForm i j, Apply) \<in> set pre
        \<and> (\<forall>c \<in> set (mesh_cells (form_mesh a)). (AssembleForm i j, AddLocal c) \<in> set pre)"
    by blast
  from pre(3) present cell have "(AssembleForm 0 1, AddLocal 0) \<in> set pre" by blast
  with pre(1,2) block ok show ?thesis by simp
qed

section \<open>The scatter map of the lifting correction\<close>

text \<open>
  C1. The claim is that the correction vector is scattered with the axis-0 dof map of
  the cell. At \<open>ex_a_VQ\<close>, whose axis-0 dofs on the cell are 0 and 1 and whose axis-1
  dofs are 2 and 3, with dof 2 set to 10 and a vector of ones, the code of line 469
  adds the correction to the entries 2 and 3 and leaves the entries 0 and 1 as they
  were.
\<close>

theorem apply_bc_scatters_with_axis1_map:
  "cell_dofs (function_space ex_a_VQ 0) 0 = [0, 1]
   \<and> cell_dofs (function_space ex_a_VQ 1) 0 = [2, 3]
   \<and> map (fst (apply_bc ex_a_VQ [ex_bc_Q] (\<lambda>r. 1))) [0, 1, 2, 3] = [1, 1, - 19, - 49]"
  by (simp add: ex_defs eval_vector)

text \<open>
  C7. The claim ends in the formula \<open>b[i] - A[i, col] * value\<close> for an unconstrained
  row \<open>i\<close>. At the same input the matrix assembled without conditions has
  \<open>A[0, 2] = 2\<close>, the prescribed value is 10, and row 0 of the vector keeps its value 1
  where the formula gives \<open>1 - 2 * 10\<close>.
\<close>

theorem lifting_misses_unconstrained_row:
  "fst (assemble_form ex_a_VQ [] Uninitialised) 0 2 = 2
   \<and> fst (apply_bc ex_a_VQ [ex_bc_Q] (\<lambda>r. 1)) 0 = 1
   \<and> fst (apply_bc ex_a_VQ [ex_bc_Q] (\<lambda>r. 1)) 0
       \<noteq> 1 - fst (assemble_form ex_a_VQ [] Uninitialised) 0 2 * 10"
  by (simp add: ex_defs eval_vector eval_matrix)

section \<open>The lifting correction in sums\<close>

lemma has_bc_iff: "has_bc bv dofs \<longleftrightarrow> (\<exists>d \<in> set dofs. bv d \<noteq> None)"
  by (induction dofs) auto

lemma vec_add_local_sum_upto:
  "fold (\<lambda>i v. v(rows ! i := v (rows ! i) + be ! i)) [0..<n] b r =
     b r + (\<Sum>i<n. if rows ! i = r then be ! i else 0)"
  by (induction n arbitrary: r) (simp_all add: algebra_simps)

lemma vec_add_local_sum:
  "vec_add_local be rows b r = b r + (\<Sum>i<length rows. if rows ! i = r then be ! i else 0)"
  unfolding vec_add_local_def by (rule vec_add_local_sum_upto)

lemma add_entry_inner_sum:
  "fold (\<lambda>j. add_entry rw (cols ! j) (f j)) [0..<m] A r c =
     A r c + (\<Sum>j<m. if rw = r \<and> cols ! j = c then f j else 0)"
  by (induction m arbitrary: r c) (simp_all add: add_entry_def algebra_simps)

lemma add_entry_outer_sum:
  "fold (\<lambda>i. fold (\<lambda>j. add_entry (rows ! i) (cols ! j) (g i j)) [0..<m]) [0..<n] A r c =
     A r c + (\<Sum>i<n. \<Sum>j<m. if rows ! i = r \<and> cols ! j = c then g i j else 0)"
  by (induction n arbitrary: r c) (simp_all add: add_entry_inner_sum algebra_simps)

lemma mat_add_local_sum:
  "mat_add_local Ae rows cols A r c =
     A r c + (\<Sum>i<length rows. \<Sum>j<length cols.
                if rows ! i = r \<and> cols ! j = c then coeff Ae i j else 0)"
  unfolding mat_add_local_def by (rule add_entry_outer_sum)

lemma lift_columns_upto:
  "length (fold (\<lambda>j v. case bv (d ! j) of None \<Rightarrow> v
                        | Some x \<Rightarrow> map (\<lambda>i. v ! i - coeff Ae i j * x) [0..<length v])
             [0..<m] be) = length be
   \<and> (\<forall>i < length be.
        fold (\<lambda>j v. case bv (d ! j) of None \<Rightarrow> v
                        | Some x \<Rightarrow> map (\<lambda>i. v ! i - coeff Ae i j * x) [0..<length v])
             [0..<m] be ! i =
        be ! i - (\<Sum>j<m. case bv (d ! j) of None \<Rightarrow> 0 | Some x \<Rightarrow> coeff Ae i j * x))"
proof (induction m)
  case 0
  then show ?case by simp
next
  case (Suc m)
  then show ?case by (cases "bv (d ! m)") (simp_all add: algebra_simps)
qed

lemma lift_columns_nth:
  "i < length be \<Longrightarrow>
   lift_columns bv d Ae be ! i =
     be ! i - (\<Sum>j<length d. case bv (d ! j) of None \<Rightarrow> 0 | Some x \<Rightarrow> coeff Ae i j * x)"
  unfolding lift_columns_def using lift_columns_upto[where bv=bv and d=d and Ae=Ae and m="length d" and be=be] by simp

lemma length_lift_columns: "length (lift_columns bv d Ae be) = length be"
  unfolding lift_columns_def using lift_columns_upto[where bv=bv and d=d and Ae=Ae and m="length d" and be=be] by simp

text \<open>
  What the cell body of the lifting does, whatever the scatter map: the test of lines
  441--450 holds exactly when an axis-1 dof of the cell has a boundary value; a cell
  that fails it makes no call and leaves the vector as it is; and the column loop
  subtracts from entry \<open>i\<close> of the local vector, for every column with a boundary
  value, the entry of that column in row \<open>i\<close> times the value.
\<close>

theorem lifting_skips_cells_without_boundary_dofs:
  "(has_bc bv dofs \<longleftrightarrow> (\<exists>d \<in> set dofs. bv d \<noteq> None))
   \<and> (\<not> has_bc bv (cell_dofs (function_space a 1) c) \<longrightarrow> apply_bc_cell a bv c b = (b, []))
   \<and> (i < length be \<longrightarrow>
        lift_columns bv dmap1 Ae be ! i =
          be ! i - (\<Sum>j<length dmap1. case bv (dmap1 ! j) of None \<Rightarrow> 0
                                       | Some x \<Rightarrow> coeff Ae i j * x))"
  by (simp add: has_bc_iff apply_bc_cell_def lift_columns_nth)

text \<open>
  The theorem at a cell whose axis-1 dofs are unconstrained, and at the local matrix
  of \<open>ex_a_VV\<close> with dof 0 set to 5.
\<close>

theorem lifting_skips_witness:
  "\<not> has_bc (Map.empty(2 \<mapsto> 10)) (cell_dofs (function_space ex_a_VV 1) 0)
   \<and> apply_bc_cell ex_a_VV (Map.empty(2 \<mapsto> 10)) 0 (\<lambda>r. 1) = (\<lambda>r. 1, [])
   \<and> has_bc (Map.empty(2 \<mapsto> 10)) (cell_dofs (function_space ex_a_VQ 1) 0)
   \<and> (1 :: nat) < length [0, 0 :: real]
   \<and> lift_columns (Map.empty(0 \<mapsto> 5)) [0, 1] (tabulate_matrix ex_a_VV 0 2 2) [0, 0] ! 1 = - 25"
proof -
  have no: "\<not> has_bc (Map.empty(2 \<mapsto> 10)) (cell_dofs (function_space ex_a_VV 1) 0)"
    by (simp add: ex_defs)
  have len: "(1 :: nat) < length [0, 0 :: real]" by simp
  note t = lifting_skips_cells_without_boundary_dofs
             [where bv="Map.empty(2 \<mapsto> 10)" and a=ex_a_VV and c=0 and b="\<lambda>r. 1"]
  note u = lifting_skips_cells_without_boundary_dofs
             [where bv="Map.empty(0 \<mapsto> 5)" and i=1 and be="[0, 0]" and ?dmap1.0="[0, 1]"
                and Ae="tabulate_matrix ex_a_VV 0 2 2"]
  have skip: "apply_bc_cell ex_a_VV (Map.empty(2 \<mapsto> 10)) 0 (\<lambda>r. 1) = (\<lambda>r. 1, [])"
    by (rule t[THEN conjunct2, THEN conjunct1, THEN mp, OF no])
  have has: "has_bc (Map.empty(2 \<mapsto> 10)) (cell_dofs (function_space ex_a_VQ 1) 0)"
    by (simp add: ex_defs)
  have "lift_columns (Map.empty(0 \<mapsto> 5)) [0, 1] (tabulate_matrix ex_a_VV 0 2 2) [0, 0] ! 1 =
          [0, 0] ! 1 - (\<Sum>j<length [0 :: nat, 1].
                          case (Map.empty(0 \<mapsto> 5 :: real)) ([0 :: nat, 1] ! j) of None \<Rightarrow> 0
                          | Some x \<Rightarrow> coeff (tabulate_matrix ex_a_VV 0 2 2) 1 j * x)"
    by (rule u[THEN conjunct2, THEN conjunct2, THEN mp, OF len])
  also have "\<dots> = - 25"
    by (simp add: ex_defs tabulate_matrix_def lessThan_Suc numeral_2_eq_2)
  finally show ?thesis using no skip has len by simp
qed

lemma fst_apply_bc_cells_Cons:
  "fst (apply_bc_cells a bv (c # cs) b) = fst (apply_bc_cells a bv cs (fst (apply_bc_cell a bv c b)))"
  by (simp add: case_prod_beta)

lemma fst_apply_bc:
  "fst (apply_bc a bs b) =
     fst (apply_bc_cells a
            (fst (collect_bcs (mpi_size (form_mesh a)) (function_space a 1) 1 0 bs Map.empty))
            (mesh_cells (form_mesh a)) b)"
  by (simp add: apply_bc_def case_prod_beta)

lemma fst_assemble_form_no_bcs:
  "fst (assemble_form a [] Uninitialised) =
     fst (assemble_cells a Map.empty Map.empty (mesh_cells (form_mesh a)) (\<lambda>r c. 0))"
  by (simp add: fst_assemble_form Let_def init_matrix_def zero_local_def)

lemma zero_bc_rows_empty: "zero_bc_rows Map.empty d Ae = Ae"
  by (simp add: zero_bc_rows_eq)

lemma zero_bc_cols_empty: "zero_bc_cols Map.empty d Ae = Ae"
  by (simp add: zero_bc_cols_eq)

lemma assemble_cell_no_bcs:
  "assemble_cell a Map.empty Map.empty c A r col =
     A r col
     + (\<Sum>i<length (cell_dofs (function_space a 0) c).
          \<Sum>j<length (cell_dofs (function_space a 1) c).
            if cell_dofs (function_space a 0) c ! i = r \<and> cell_dofs (function_space a 1) c ! j = col
            then coeff (tabulate_matrix a c (length (cell_dofs (function_space a 0) c))
                          (length (cell_dofs (function_space a 1) c))) i j
            else 0)"
  unfolding assemble_cell_def Let_def zero_bc_rows_empty zero_bc_cols_empty mat_add_local_sum
  by (rule refl)

lemma apply_bc_cell_one_dof:
  assumes col: "bv col = Some x" and others: "\<forall>d. d \<noteq> col \<longrightarrow> bv d = None" and r: "r \<noteq> col"
  shows "fst (apply_bc_cell a bv c b) r =
     b r
     - x * (\<Sum>i<length (cell_dofs (function_space a 1) c).
              \<Sum>j<length (cell_dofs (function_space a 1) c).
                if cell_dofs (function_space a 1) c ! i = r \<and> cell_dofs (function_space a 1) c ! j = col
                then coeff (tabulate_matrix a c (length (cell_dofs (function_space a 1) c))
                              (length (cell_dofs (function_space a 1) c))) i j
                else 0)"
proof -
  define d where "d = cell_dofs (function_space a 1) c"
  define Ae where "Ae = tabulate_matrix a c (length d) (length d)"
  define S where
    "S = (\<Sum>i<length d. \<Sum>j<length d. if d ! i = r \<and> d ! j = col then coeff Ae i j else 0)"
  have bv_iff: "bv k \<noteq> None \<longleftrightarrow> k = col" for k
    using col others by auto
  have bv_r: "bv r = None" using others r by simp
  show ?thesis
    unfolding d_def[symmetric] Ae_def[symmetric] S_def[symmetric]
  proof (cases "has_bc bv d")
    case False
    have "d ! j \<noteq> col" if "j < length d" for j
    proof
      assume "d ! j = col"
      with that have "col \<in> set d" using nth_mem by force
      with False have "bv col = None" by (simp add: has_bc_iff)
      with col show False by simp
    qed
    then have "S = 0" by (simp add: S_def)
    moreover have "fst (apply_bc_cell a bv c b) = b"
      using False by (simp add: apply_bc_cell_def d_def)
    ultimately show "fst (apply_bc_cell a bv c b) r = b r - x * S" by simp
  next
    case True
    define Ae0 where
      "Ae0 = (if space_id (function_space a 0) = space_id (function_space a 1)
              then zero_bc_rows bv d Ae else Ae)"
    define be where "be = lift_columns bv d Ae0 (replicate (length d) 0)"
    have res: "fst (apply_bc_cell a bv c b) = vec_add_local be d b"
      using True by (simp add: apply_bc_cell_def Let_def d_def Ae_def Ae0_def be_def)
    have row: "coeff Ae0 i j = coeff Ae i j" if "d ! i = r" for i j
      using that bv_r by (simp add: Ae0_def zero_bc_rows_eq)
    have case_eq: "(case bv (d ! j) of None \<Rightarrow> 0 | Some y \<Rightarrow> coeff Ae0 i j * y) =
                     (if d ! j = col then coeff Ae0 i j * x else 0)" for i j
      using col others by (cases "d ! j = col") simp_all
    have be_nth: "be ! i = - (\<Sum>j<length d. if d ! j = col then coeff Ae0 i j * x else 0)"
      if "i < length d" for i
      unfolding be_def using that by (simp add: lift_columns_nth case_eq)
    have "(\<Sum>i<length d. if d ! i = r then be ! i else 0) =
            (\<Sum>i<length d. - x * (\<Sum>j<length d. if d ! i = r \<and> d ! j = col then coeff Ae i j else 0))"
    proof (rule sum.cong)
      fix i
      assume "i \<in> {..<length d}"
      then have i: "i < length d" by simp
      show "(if d ! i = r then be ! i else 0) =
              - x * (\<Sum>j<length d. if d ! i = r \<and> d ! j = col then coeff Ae i j else 0)"
      proof (cases "d ! i = r")
        case False
        then show ?thesis by simp
      next
        case True
        have "(\<Sum>j<length d. if d ! j = col then coeff Ae0 i j * x else 0) =
                x * (\<Sum>j<length d. if d ! j = col then coeff Ae i j else 0)"
          unfolding sum_distrib_left
          by (rule sum.cong) (simp_all add: row[OF True])
        then show ?thesis using True by (simp add: be_nth[OF i])
      qed
    qed simp
    also have "\<dots> = - x * S"
      unfolding S_def sum_distrib_left by simp
    finally have "(\<Sum>i<length d. if d ! i = r then be ! i else 0) = - x * S" .
    then show "fst (apply_bc_cell a bv c b) r = b r - x * S"
      by (simp add: res vec_add_local_sum)
  qed
qed

lemma apply_bc_cells_one_dof:
  assumes same: "\<forall>c \<in> set cs. cell_dofs (function_space a 0) c = cell_dofs (function_space a 1) c"
    and col: "bv col = Some x" and others: "\<forall>d. d \<noteq> col \<longrightarrow> bv d = None" and r: "r \<noteq> col"
  shows "fst (apply_bc_cells a bv cs b) r =
           b r - (fst (assemble_cells a Map.empty Map.empty cs A) r col - A r col) * x"
  using same
proof (induction cs arbitrary: b A)
  case Nil
  then show ?case by simp
next
  case (Cons c cs)
  define S where
    "S = (\<Sum>i<length (cell_dofs (function_space a 1) c).
            \<Sum>j<length (cell_dofs (function_space a 1) c).
              if cell_dofs (function_space a 1) c ! i = r \<and> cell_dofs (function_space a 1) c ! j = col
              then coeff (tabulate_matrix a c (length (cell_dofs (function_space a 1) c))
                            (length (cell_dofs (function_space a 1) c))) i j
              else 0)"
  define b' where "b' = fst (apply_bc_cell a bv c b)"
  define A' where "A' = assemble_cell a Map.empty Map.empty c A"
  have d: "cell_dofs (function_space a 0) c = cell_dofs (function_space a 1) c"
    using Cons.prems by simp
  have v: "b' r = b r - x * S"
    unfolding b'_def S_def by (rule apply_bc_cell_one_dof[OF col others r])
  have m: "A' r col = A r col + S"
    unfolding A'_def S_def assemble_cell_no_bcs d by (rule refl)
  have ih: "fst (apply_bc_cells a bv cs b') r =
              b' r - (fst (assemble_cells a Map.empty Map.empty cs A') r col - A' r col) * x"
    using Cons.prems by (intro Cons.IH) simp
  have "fst (apply_bc_cells a bv (c # cs) b) r = fst (apply_bc_cells a bv cs b') r"
    unfolding b'_def by (simp only: fst_apply_bc_cells_Cons)
  moreover have "fst (assemble_cells a Map.empty Map.empty (c # cs) A) =
                   fst (assemble_cells a Map.empty Map.empty cs A')"
    unfolding A'_def by (simp only: fst_assemble_cells_Cons)
  ultimately show ?case
    using ih v m by (simp add: algebra_simps)
qed

text \<open>
  The formula of the lifting correction holds where line 469 does no harm: when the
  two dof maps agree on every cell of the mesh and the resolved axis-1 map constrains
  exactly one dof \<open>col\<close> to the value \<open>x\<close>, every other row \<open>r\<close> of the vector ends
  as \<open>b[r] - A[r, col] * x\<close>, where \<open>A\<close> is the matrix that the same form assembles
  without conditions.
\<close>

theorem lifting_formula_when_dof_maps_coincide:
  assumes same: "\<forall>c \<in> set (mesh_cells (form_mesh a)).
                   cell_dofs (function_space a 0) c = cell_dofs (function_space a 1) c"
    and col: "fst (collect_bcs (mpi_size (form_mesh a)) (function_space a 1) 1 0 bs Map.empty) col
                = Some x"
    and others: "\<forall>d. d \<noteq> col \<longrightarrow>
                   fst (collect_bcs (mpi_size (form_mesh a)) (function_space a 1) 1 0 bs Map.empty) d
                     = None"
    and r: "r \<noteq> col"
  shows "fst (apply_bc a bs b) r = b r - fst (assemble_form a [] Uninitialised) r col * x"
  unfolding fst_apply_bc fst_assemble_form_no_bcs
  using apply_bc_cells_one_dof[OF same col others r, of b "\<lambda>r c. 0"] by simp

text \<open>The theorem at \<open>ex_a_VV\<close>, dof 0 set to 5, row 1.\<close>

theorem lifting_formula_witness:
  "(\<forall>c \<in> set (mesh_cells (form_mesh ex_a_VV)).
      cell_dofs (function_space ex_a_VV 0) c = cell_dofs (function_space ex_a_VV 1) c)
   \<and> fst (collect_bcs (mpi_size (form_mesh ex_a_VV)) (function_space ex_a_VV 1) 1 0 [ex_bc_V]
            Map.empty) 0 = Some 5
   \<and> fst (assemble_form ex_a_VV [] Uninitialised) 1 0 = 5
   \<and> fst (apply_bc ex_a_VV [ex_bc_V] (\<lambda>r. 1)) 1 = 1 - 5 * 5"
proof -
  have same: "\<forall>c \<in> set (mesh_cells (form_mesh ex_a_VV)).
      cell_dofs (function_space ex_a_VV 0) c = cell_dofs (function_space ex_a_VV 1) c"
    by (simp add: ex_defs)
  have col: "fst (collect_bcs (mpi_size (form_mesh ex_a_VV)) (function_space ex_a_VV 1) 1 0
                [ex_bc_V] Map.empty) 0 = Some 5"
    by (simp add: ex_defs resolve_bc_def)
  have others: "\<forall>d. d \<noteq> 0 \<longrightarrow>
      fst (collect_bcs (mpi_size (form_mesh ex_a_VV)) (function_space ex_a_VV 1) 1 0
             [ex_bc_V] Map.empty) d = None"
    by (simp add: ex_defs resolve_bc_def)
  have r: "(1 :: nat) \<noteq> 0" by simp
  have A: "fst (assemble_form ex_a_VV [] Uninitialised) 1 0 = 5"
    by (simp add: ex_defs eval_matrix)
  show ?thesis
    using same col A lifting_formula_when_dof_maps_coincide [OF same col others r, of "\<lambda>r. 1"]
    by simp
qed

section \<open>Block assembly returns on a rectangular table\<close>

lemma flat_index_less: "i < nr \<Longrightarrow> j < nc \<Longrightarrow> i * nc + j < nr * (nc :: nat)"
proof -
  assume i: "i < nr" and j: "j < nc"
  have "i * nc + j < i * nc + nc" using j by simp
  also have "\<dots> = Suc i * nc" by simp
  also have "\<dots> \<le> nr * nc" using i by (intro mult_le_mono1) simp
  finally show ?thesis .
qed

lemma fst_init_sub_row:
  "fst (init_sub_row i j a_row) = map (map_option (\<lambda>a. Entries (init_matrix a))) a_row"
proof (induction a_row arbitrary: j)
  case Nil
  then show ?case by simp
next
  case (Cons x rest)
  then show ?case by (cases x) (simp_all add: case_prod_beta)
qed

lemma fst_init_sub_mats:
  "fst (init_sub_mats i tab) = concat (map (map (map_option (\<lambda>a. Entries (init_matrix a)))) tab)"
  by (induction tab arbitrary: i) (simp_all add: case_prod_beta fst_init_sub_row)

lemma concat_rectangular_length:
  "\<forall>a_row \<in> set tab. length a_row = nc \<Longrightarrow> length (concat tab) = length tab * nc"
  by (induction tab) simp_all

lemma concat_rectangular_nth:
  "\<forall>a_row \<in> set tab. length a_row = nc \<Longrightarrow> p < length tab \<Longrightarrow> q < nc \<Longrightarrow>
   concat tab ! (p * nc + q) = tab ! p ! q"
proof (induction tab arbitrary: p)
  case Nil
  then show ?case by simp
next
  case (Cons a_row rest)
  show ?case
  proof (cases p)
    case 0
    then show ?thesis using Cons.prems by (simp add: nth_append)
  next
    case (Suc p')
    have "concat rest ! (p' * nc + q) = rest ! p' ! q"
      using Cons.prems Suc by (intro Cons.IH) simp_all
    moreover have "Suc p' * nc + q = length a_row + (p' * nc + q)"
      using Cons.prems by simp
    ultimately show ?thesis
      using Suc by (simp only: concat.simps nth_append_length_plus nth_Cons_Suc)
  qed
qed


lemma assemble_block_row_returns:
  assumes "length mats = nr * nc" and "i < nr" and "j + length a_row \<le> nc"
    and "\<forall>k < length a_row. a_row ! k \<noteq> None \<longrightarrow> mats ! (i * nc + (j + k)) \<noteq> None"
  shows "snd (snd (assemble_block_row bs nr nc i j a_row mats)) = None
         \<and> length (fst (assemble_block_row bs nr nc i j a_row mats)) = nr * nc
         \<and> (\<forall>k < nr * nc. mats ! k \<noteq> None \<longrightarrow>
                fst (assemble_block_row bs nr nc i j a_row mats) ! k \<noteq> None)"
  using assms
proof (induction a_row arbitrary: j mats)
  case Nil
  then show ?case by simp
next
  case (Cons x rest)
  have j: "j < nc" using Cons.prems(3) by simp
  have shift: "\<forall>k < length rest. rest ! k \<noteq> None \<longrightarrow> mats ! (i * nc + (Suc j + k)) \<noteq> None"
  proof (intro allI impI)
    fix k assume "k < length rest" "rest ! k \<noteq> None"
    then have "Suc k < length (x # rest)" "(x # rest) ! Suc k \<noteq> None" by simp_all
    then have "mats ! (i * nc + (j + Suc k)) \<noteq> None" using Cons.prems(4) by blast
    then show "mats ! (i * nc + (Suc j + k)) \<noteq> None" by simp
  qed
  show ?case
  proof (cases x)
    case None
    have "snd (snd (assemble_block_row bs nr nc i (Suc j) rest mats)) = None
         \<and> length (fst (assemble_block_row bs nr nc i (Suc j) rest mats)) = nr * nc
         \<and> (\<forall>k < nr * nc. mats ! k \<noteq> None \<longrightarrow>
                fst (assemble_block_row bs nr nc i (Suc j) rest mats) ! k \<noteq> None)"
      using Cons.prems(1,2,3) shift by (intro Cons.IH) simp_all
    then show ?thesis using None by simp
  next
    case (Some a)
    have "0 < length (x # rest)" "(x # rest) ! 0 \<noteq> None" using Some by simp_all
    then have "mats ! (i * nc + (j + 0)) \<noteq> None" using Cons.prems(4) by blast
    then obtain sub0 where sub0: "mats ! (i * nc + j) = Some sub0" by auto
    have idx: "i * nc + j < length mats"
      using Cons.prems(1,2) j by (simp add: flat_index_less)
    have sub: "get_sub_mat nr nc mats i j = Inr sub0"
      using Cons.prems(2) j idx sub0 by (simp add: get_sub_mat_def)
    let ?mats = "mats[i * nc + j := Some (Entries (fst (assemble_form a bs sub0)))]"
    have keep: "?mats ! k \<noteq> None" if "k < nr * nc" "mats ! k \<noteq> None" for k
    proof (cases "k = i * nc + j")
      case True
      then show ?thesis using idx by simp
    next
      case False
      then show ?thesis using that by simp
    qed
    have inv: "\<forall>k < length rest. rest ! k \<noteq> None \<longrightarrow> ?mats ! (i * nc + (Suc j + k)) \<noteq> None"
    proof (intro allI impI)
      fix k assume k: "k < length rest" "rest ! k \<noteq> None"
      then have "Suc j + k < nc" using Cons.prems(3) by simp
      then have "i * nc + (Suc j + k) < nr * nc"
        using Cons.prems(2) by (intro flat_index_less)
      moreover have "mats ! (i * nc + (Suc j + k)) \<noteq> None" using shift k by blast
      ultimately show "?mats ! (i * nc + (Suc j + k)) \<noteq> None" by (rule keep)
    qed
    have IH: "snd (snd (assemble_block_row bs nr nc i (Suc j) rest ?mats)) = None
         \<and> length (fst (assemble_block_row bs nr nc i (Suc j) rest ?mats)) = nr * nc
         \<and> (\<forall>k < nr * nc. ?mats ! k \<noteq> None \<longrightarrow>
                fst (assemble_block_row bs nr nc i (Suc j) rest ?mats) ! k \<noteq> None)"
      using Cons.prems(1,2,3) inv by (intro Cons.IH) simp_all
    have step: "assemble_block_row bs nr nc i j (x # rest) mats =
            (fst (assemble_block_row bs nr nc i (Suc j) rest ?mats),
             map (Pair (AssembleForm i j)) (snd (assemble_form a bs sub0))
               @ fst (snd (assemble_block_row bs nr nc i (Suc j) rest ?mats)),
             snd (snd (assemble_block_row bs nr nc i (Suc j) rest ?mats)))"
      using Some sub by (simp add: case_prod_beta)
    show ?thesis
      unfolding step using IH keep by simp
  qed
qed

lemma assemble_blocks_returns:
  assumes "length mats = nr * nc" and "i + length tab \<le> nr"
    and "\<forall>a_row \<in> set tab. length a_row \<le> nc"
    and "\<forall>p < length tab. \<forall>q < length (tab ! p).
           tab ! p ! q \<noteq> None \<longrightarrow> mats ! ((i + p) * nc + q) \<noteq> None"
  shows "snd (snd (assemble_blocks bs nr nc i tab mats)) = None"
  using assms
proof (induction tab arbitrary: i mats)
  case Nil
  then show ?case by simp
next
  case (Cons a_row rest)
  let ?row = "assemble_block_row bs nr nc i 0 a_row mats"
  have i: "i < nr" using Cons.prems(2) by simp
  have present: "\<forall>k < length a_row. a_row ! k \<noteq> None \<longrightarrow> mats ! (i * nc + (0 + k)) \<noteq> None"
  proof (intro allI impI)
    fix k assume "k < length a_row" "a_row ! k \<noteq> None"
    then have "0 < length (a_row # rest)" "k < length ((a_row # rest) ! 0)"
              "(a_row # rest) ! 0 ! k \<noteq> None"
      by simp_all
    then have "mats ! ((i + 0) * nc + k) \<noteq> None" using Cons.prems(4) by blast
    then show "mats ! (i * nc + (0 + k)) \<noteq> None" by simp
  qed
  have row: "snd (snd ?row) = None \<and> length (fst ?row) = nr * nc
             \<and> (\<forall>k < nr * nc. mats ! k \<noteq> None \<longrightarrow> fst ?row ! k \<noteq> None)"
    using Cons.prems(1,3) i present by (intro assemble_block_row_returns) simp_all
  have inv: "\<forall>p < length rest. \<forall>q < length (rest ! p).
               rest ! p ! q \<noteq> None \<longrightarrow> fst ?row ! ((Suc i + p) * nc + q) \<noteq> None"
  proof (intro allI impI)
    fix p q assume pq: "p < length rest" "q < length (rest ! p)" "rest ! p ! q \<noteq> None"
    then have "Suc p < length (a_row # rest)" "q < length ((a_row # rest) ! Suc p)"
              "(a_row # rest) ! Suc p ! q \<noteq> None"
      by simp_all
    then have "mats ! ((i + Suc p) * nc + q) \<noteq> None" using Cons.prems(4) by blast
    then have m: "mats ! ((Suc i + p) * nc + q) \<noteq> None" by simp
    have "length (rest ! p) \<le> nc" using Cons.prems(3) pq(1) by simp
    then have "q < nc" using pq(2) by simp
    moreover have "Suc i + p < nr" using Cons.prems(2) pq(1) by simp
    ultimately have "(Suc i + p) * nc + q < nr * nc" by (intro flat_index_less)
    then show "fst ?row ! ((Suc i + p) * nc + q) \<noteq> None" using row m by blast
  qed
  have "snd (snd (assemble_blocks bs nr nc (Suc i) rest (fst ?row))) = None"
    using Cons.prems(2,3) row inv by (intro Cons.IH) simp_all
  then show ?case using row by (simp add: case_prod_beta)
qed

text \<open>
  \<^verbatim>\<open>assemble(A)\<close> returns whenever the matrix is empty and the block table is
  rectangular: every handle the loop asks for is inside the nest and non-null where the
  form is present.
\<close>

theorem block_assembly_returns_on_rectangular_table:
  assumes empty: "empty_matrix A"
    and tab: "forms_a asm \<noteq> []"
    and rect: "\<forall>a_row \<in> set (forms_a asm). length a_row = length (hd (forms_a asm))"
    and block: "1 < length (forms_a asm) \<or> 1 < length (hd (forms_a asm))"
  shows "snd (snd (assemble_matrix asm A)) = None"
proof -
  obtain row0 rest where t: "forms_a asm = row0 # rest"
    using tab by (cases "forms_a asm") auto
  let ?nr = "length (forms_a asm)" and ?nc = "length row0"
  let ?flat = "fst (init_sub_mats 0 (forms_a asm))"
  let ?some = "map (map (map_option (\<lambda>a. Entries (init_matrix a)))) (forms_a asm)"
  have rect': "\<forall>a_row \<in> set (forms_a asm). length a_row = ?nc"
    using rect t by simp
  have rect_some: "\<forall>a_row \<in> set ?some. length a_row = ?nc"
    using rect' by auto
  have flat: "?flat = concat ?some" by (rule fst_init_sub_mats)
  have len: "length ?flat = ?nr * ?nc"
    unfolding flat using concat_rectangular_length[OF rect_some] by simp
  have take: "take (?nr * ?nc) ?flat = ?flat" using len by simp
  have present: "\<forall>p < ?nr. \<forall>q < length (forms_a asm ! p).
                   forms_a asm ! p ! q \<noteq> None \<longrightarrow> ?flat ! ((0 + p) * ?nc + q) \<noteq> None"
  proof (intro allI impI)
    fix p q assume pq: "p < ?nr" "q < length (forms_a asm ! p)" "forms_a asm ! p ! q \<noteq> None"
    have q: "q < ?nc" using rect' pq(1,2) by simp
    have "concat ?some ! (p * ?nc + q) = ?some ! p ! q"
      using rect_some pq(1) q by (intro concat_rectangular_nth) simp_all
    also have "\<dots> = map_option (\<lambda>a. Entries (init_matrix a)) (forms_a asm ! p ! q)"
      using pq(1,2) by simp
    finally show "?flat ! ((0 + p) * ?nc + q) \<noteq> None"
      using pq(3) by (simp add: flat)
  qed
  have ok: "snd (snd (assemble_blocks (bcs asm) ?nr ?nc 0 (forms_a asm) ?flat)) = None"
    using len rect' present by (intro assemble_blocks_returns) simp_all
  show ?thesis
    using empty t block len ok
    by (simp add: assemble_matrix_def Let_def case_prod_beta take)
qed

text \<open>The theorem at a full table and at a table with an absent entry.\<close>

theorem block_assembly_returns_witness:
  "empty_matrix (Plain Uninitialised)
   \<and> forms_a ex_asm_block \<noteq> []
   \<and> (1 < length (forms_a ex_asm_block) \<or> 1 < length (hd (forms_a ex_asm_block)))
   \<and> snd (snd (assemble_matrix ex_asm_block (Plain Uninitialised))) = None
   \<and> snd (snd (assemble_matrix ex_asm_absent (Plain Uninitialised))) = None"
proof -
  have e: "empty_matrix (Plain Uninitialised)" by simp
  have t: "forms_a ex_asm_block \<noteq> []" "forms_a ex_asm_absent \<noteq> []"
    by (simp_all add: ex_defs)
  have rect: "\<forall>a_row \<in> set (forms_a ex_asm_block).
                length a_row = length (hd (forms_a ex_asm_block))"
             "\<forall>a_row \<in> set (forms_a ex_asm_absent).
                length a_row = length (hd (forms_a ex_asm_absent))"
    by (simp_all add: ex_defs)
  have block: "1 < length (forms_a ex_asm_block) \<or> 1 < length (hd (forms_a ex_asm_block))"
              "1 < length (forms_a ex_asm_absent) \<or> 1 < length (hd (forms_a ex_asm_absent))"
    by (simp_all add: ex_defs)
  show ?thesis
    using e t(1) block(1)
      block_assembly_returns_on_rectangular_table [OF e t(1) rect(1) block(1)]
      block_assembly_returns_on_rectangular_table [OF e t(2) rect(2) block(2)]
    by simp
qed

end
